theory Spec2Isabelle
  imports Complex_Main
begin

section \<open>The BDF integrator of pybamm/solvers/jax\_bdf\_solver.py\<close>

text \<open>
  A shallow embedding of the variable-step, variable-order BDF integrator. Python integers
  are \<open>int\<close>, iteration counters that start at zero and are only incremented are
  \<open>nat\<close>, vectors are \<open>real list\<close>, matrices are lists of rows.

  Double-precision numbers are read as exact reals: there is no rounding and no overflow.
  The IEEE special values are kept where the source produces one from finite operands and
  then branches on it or stores it: the contraction rate and the two tests of the Newton
  iteration, the Newton tolerance, the refined initial step, and the error norms and
  step-size factors of the order change (which start from the literal \<open>np.inf\<close>). These
  quantities have the type \<open>fl\<close>. Everywhere else \<open>/\<close> is the division of the reals;
  its denominators are the error scale \<open>atol + rtol * |y|\<close>, the step size and positive
  integers, and no theorem below rests on the value of a quotient whose denominator is zero.
\<close>

subsection \<open>Constants\<close>

definition MAX_ORDER :: int where
  "MAX_ORDER = 5"

definition NEWTON_MAXITER :: nat where
  "NEWTON_MAXITER = 4"

definition MIN_FACTOR :: real where
  "MIN_FACTOR = 0.2"

definition MAX_FACTOR :: real where
  "MAX_FACTOR = 10"

subsection \<open>Floating-point scalars with infinities and nan\<close>

datatype fl = Fin real | PInf | NInf | NaN

fun fl_mul :: "fl \<Rightarrow> fl \<Rightarrow> fl" where
  "fl_mul NaN _ = NaN"
| "fl_mul _ NaN = NaN"
| "fl_mul (Fin a) (Fin b) = Fin (a * b)"
| "fl_mul (Fin a) PInf = (if 0 < a then PInf else if a < 0 then NInf else NaN)"
| "fl_mul (Fin a) NInf = (if 0 < a then NInf else if a < 0 then PInf else NaN)"
| "fl_mul PInf (Fin b) = (if 0 < b then PInf else if b < 0 then NInf else NaN)"
| "fl_mul NInf (Fin b) = (if 0 < b then NInf else if b < 0 then PInf else NaN)"
| "fl_mul PInf PInf = PInf"
| "fl_mul PInf NInf = NInf"
| "fl_mul NInf PInf = NInf"
| "fl_mul NInf NInf = PInf"

fun fl_div :: "fl \<Rightarrow> fl \<Rightarrow> fl" where
  "fl_div NaN _ = NaN"
| "fl_div _ NaN = NaN"
| "fl_div (Fin a) (Fin b) =
     (if b \<noteq> 0 then Fin (a / b)
      else if 0 < a then PInf else if a < 0 then NInf else NaN)"
| "fl_div (Fin a) PInf = Fin 0"
| "fl_div (Fin a) NInf = Fin 0"
| "fl_div PInf (Fin b) = (if 0 \<le> b then PInf else NInf)"
| "fl_div NInf (Fin b) = (if 0 \<le> b then NInf else PInf)"
| "fl_div PInf PInf = NaN"
| "fl_div PInf NInf = NaN"
| "fl_div NInf PInf = NaN"
| "fl_div NInf NInf = NaN"

fun fl_sub :: "fl \<Rightarrow> fl \<Rightarrow> fl" where
  "fl_sub NaN _ = NaN"
| "fl_sub _ NaN = NaN"
| "fl_sub (Fin a) (Fin b) = Fin (a - b)"
| "fl_sub (Fin a) PInf = NInf"
| "fl_sub (Fin a) NInf = PInf"
| "fl_sub PInf (Fin b) = PInf"
| "fl_sub NInf (Fin b) = NInf"
| "fl_sub PInf PInf = NaN"
| "fl_sub PInf NInf = PInf"
| "fl_sub NInf PInf = NInf"
| "fl_sub NInf NInf = NaN"

text \<open>Comparisons: every comparison with nan is false.\<close>

fun fl_lt :: "fl \<Rightarrow> fl \<Rightarrow> bool" where
  "fl_lt NaN _ = False"
| "fl_lt _ NaN = False"
| "fl_lt (Fin a) (Fin b) = (a < b)"
| "fl_lt (Fin a) PInf = True"
| "fl_lt (Fin a) NInf = False"
| "fl_lt PInf _ = False"
| "fl_lt NInf (Fin b) = True"
| "fl_lt NInf PInf = True"
| "fl_lt NInf NInf = False"

fun fl_le :: "fl \<Rightarrow> fl \<Rightarrow> bool" where
  "fl_le NaN _ = False"
| "fl_le _ NaN = False"
| "fl_le (Fin a) (Fin b) = (a \<le> b)"
| "fl_le (Fin a) PInf = True"
| "fl_le (Fin a) NInf = False"
| "fl_le PInf (Fin b) = False"
| "fl_le PInf PInf = True"
| "fl_le PInf NInf = False"
| "fl_le NInf _ = True"

text \<open>\<open>x ** n\<close> for a non-negative integer exponent.\<close>

fun fl_pow :: "fl \<Rightarrow> nat \<Rightarrow> fl" where
  "fl_pow x 0 = Fin 1"
| "fl_pow x (Suc n) = fl_mul x (fl_pow x n)"

text \<open>
  \<open>x ** p\<close> for a real exponent: a negative power of zero is \<open>inf\<close>, a negative power of
  \<open>inf\<close> is zero, a negative base gives nan unless the exponent is an integer.
\<close>

fun fl_powr :: "fl \<Rightarrow> real \<Rightarrow> fl" where
  "fl_powr (Fin a) p =
     (if p = 0 then Fin 1
      else if 0 < a then Fin (a powr p)
      else if a = 0 then (if p < 0 then PInf else Fin 0)
      else if of_int \<lfloor>p\<rfloor> = p then Fin (a powi \<lfloor>p\<rfloor>) else NaN)"
| "fl_powr PInf p = (if p = 0 then Fin 1 else if p < 0 then Fin 0 else PInf)"
| "fl_powr NInf p =
     (if p = 0 then Fin 1 else if p < 0 then Fin 0
      else if of_int \<lfloor>p\<rfloor> = p \<and> odd \<lfloor>p\<rfloor> then NInf else PInf)"
| "fl_powr NaN p = (if p = 0 then Fin 1 else NaN)"

fun fl_sqrt :: "fl \<Rightarrow> fl" where
  "fl_sqrt (Fin a) = (if a < 0 then NaN else Fin (sqrt a))"
| "fl_sqrt PInf = PInf"
| "fl_sqrt NInf = NaN"
| "fl_sqrt NaN = NaN"

text \<open>\<open>np.min\<close> and \<open>np.max\<close> of a pair: nan propagates.\<close>

fun np_min2 :: "fl \<Rightarrow> fl \<Rightarrow> fl" where
  "np_min2 NaN _ = NaN"
| "np_min2 _ NaN = NaN"
| "np_min2 a b = (if fl_le a b then a else b)"

fun np_max2 :: "fl \<Rightarrow> fl \<Rightarrow> fl" where
  "np_max2 NaN _ = NaN"
| "np_max2 _ NaN = NaN"
| "np_max2 a b = (if fl_le a b then b else a)"

subsection \<open>Vectors, matrices and array indexing\<close>

type_synonym vec = "real list"
type_synonym mat = "real list list"

definition vadd :: "vec \<Rightarrow> vec \<Rightarrow> vec" where
  "vadd u v = map2 (+) u v"

definition vsub :: "vec \<Rightarrow> vec \<Rightarrow> vec" where
  "vsub u v = map2 (-) u v"

definition vdiv :: "vec \<Rightarrow> vec \<Rightarrow> vec" where
  "vdiv u v = map2 (/) u v"

definition smul :: "real \<Rightarrow> vec \<Rightarrow> vec" where
  "smul a v = map ((*) a) v"

definition zeros :: "nat \<Rightarrow> vec" where
  "zeros n = replicate n 0"

text \<open>\<open>np.mean(v)\<close> and the root-mean-square norm \<open>np.sqrt(np.mean(v**2))\<close>.\<close>

definition mean :: "vec \<Rightarrow> real" where
  "mean v = sum_list v / real (length v)"

definition rms :: "vec \<Rightarrow> real" where
  "rms v = sqrt (mean (map (\<lambda>x. x\<^sup>2) v))"

text \<open>
  Indexing an array with an integer inside a traced computation: a negative index counts
  from the end, a read out of range is clamped to the nearest row, and an update
  (\<open>jax.ops.index_update\<close>, \<open>jax.ops.index_add\<close>) out of range is dropped.
\<close>

definition norm_index :: "'a list \<Rightarrow> int \<Rightarrow> int" where
  "norm_index xs i = (if i < 0 then i + int (length xs) else i)"

definition in_bounds :: "'a list \<Rightarrow> int \<Rightarrow> bool" where
  "in_bounds xs i = (0 \<le> norm_index xs i \<and> norm_index xs i < int (length xs))"

definition jget :: "'a list \<Rightarrow> int \<Rightarrow> 'a" where
  "jget xs i = xs ! nat (max 0 (min (norm_index xs i) (int (length xs) - 1)))"

definition index_update :: "'a list \<Rightarrow> int \<Rightarrow> 'a \<Rightarrow> 'a list" where
  "index_update xs i v = (if in_bounds xs i then xs[nat (norm_index xs i) := v] else xs)"

definition index_add :: "vec list \<Rightarrow> int \<Rightarrow> vec \<Rightarrow> vec list" where
  "index_add xs i v = (if in_bounds xs i then xs[nat (norm_index xs i) := vadd (jget xs i) v] else xs)"

text \<open>Matrices: \<open>M.T\<close> for a matrix with \<open>n\<close> columns, \<open>np.dot\<close>, and scalar operations.\<close>

definition mT :: "nat \<Rightarrow> mat \<Rightarrow> mat" where
  "mT n M = map (\<lambda>j. map (\<lambda>row. row ! j) M) [0..<n]"

definition dot_mv :: "mat \<Rightarrow> vec \<Rightarrow> vec" where
  "dot_mv M v = map (\<lambda>row. sum_list (map2 (*) row v)) M"

definition dot :: "mat \<Rightarrow> mat \<Rightarrow> mat" where
  "dot A B = map (\<lambda>row. map (\<lambda>j. sum_list (map2 (*) row (map (\<lambda>r. r ! j) B)))
                              [0..<(case B of [] \<Rightarrow> 0 | r # _ \<Rightarrow> length r)]) A"

definition msub :: "mat \<Rightarrow> mat \<Rightarrow> mat" where
  "msub A B = map2 vsub A B"

definition msmul :: "real \<Rightarrow> mat \<Rightarrow> mat" where
  "msmul a M = map (smul a) M"

definition identity :: "nat \<Rightarrow> mat" where
  "identity n = map (\<lambda>i. map (\<lambda>j. if i = j then 1 else 0) [0..<n]) [0..<n]"

text \<open>\<open>np.cumprod(M, axis=0)\<close>: running products down the columns.\<close>

fun cumprod_rows :: "vec \<Rightarrow> mat \<Rightarrow> mat" where
  "cumprod_rows acc [] = []"
| "cumprod_rows acc (r # rs) = map2 (*) acc r # cumprod_rows (map2 (*) acc r) rs"

definition cumprod0 :: "mat \<Rightarrow> mat" where
  "cumprod0 M = (case M of [] \<Rightarrow> [] | r # rs \<Rightarrow> r # cumprod_rows r rs)"

subsection \<open>The solver state\<close>

text \<open>
  The dictionary \<open>state\<close> with its keys. \<open>LU\<close> holds the matrix \<open>I - c * J\<close> that the
  source hands to \<open>jax.scipy.linalg.lu_factor\<close>; the solver \<open>lu_solve\<close>, the right-hand
  side \<open>fun\<close> (here \<open>fn\<close>) and its Jacobian \<open>jac\<close> are parameters of the model.
  In the source \<open>alpha[0]\<close> is \<open>1 / 0 = inf\<close>; it is read only at order 0, and is the
  real \<open>1 / 0 = 0\<close> here.
\<close>

record state =
  t :: real
  y :: vec
  atol :: real
  rtol :: real
  order :: int
  h :: real
  newton_tol :: fl
  n_equal_steps :: int
  D :: mat
  y0 :: vec
  scale_y0 :: vec
  I :: mat
  kappa :: vec
  gamma :: vec
  alpha :: vec
  c :: real
  error_const :: vec
  J :: mat
  LU :: mat
  U :: "mat list"
  psi :: vec

type_synonym rhs = "real \<Rightarrow> vec \<Rightarrow> vec"
type_synonym jacobian = "real \<Rightarrow> vec \<Rightarrow> mat"
type_synonym solver = "mat \<Rightarrow> vec \<Rightarrow> vec"

subsection \<open>compute\_R\<close>

text \<open>
  \<open>M\<close> is allocated with \<open>np.empty\<close>, which in jax.numpy is an array of zeros; row 0 is
  set to 1 and the block \<open>[1:, 1:]\<close> to \<open>(I - 1 - factor * J) / I\<close>, so column 0 keeps
  the zeros below row 0. The argument \<open>order\<close> is not used by the source.
\<close>

definition compute_R :: "int \<Rightarrow> real \<Rightarrow> mat" where
  "compute_R k factor =
     (let n = nat (MAX_ORDER + 1);
          M = map (\<lambda>i. map (\<lambda>j. if i = 0 then 1 else if j = 0 then 0
                                   else (real i - 1 - factor * real j) / real i) [0..<n]) [0..<n]
      in cumprod0 M)"

subsection \<open>Predictor and psi\<close>

definition predict :: "state \<Rightarrow> state" where
  "predict s =
     (let n = length (y s);
          subD = map2 (\<lambda>i row. map (\<lambda>x. if int i \<le> order s then x else 0) row)
                      [0..<nat (MAX_ORDER + 1)] (D s);
          p = map sum_list (mT n subD)
      in s\<lparr>y0 := p, scale_y0 := map (\<lambda>v. atol s + rtol s * \<bar>v\<bar>) p\<rparr>)"

definition update_psi :: "state \<Rightarrow> state" where
  "update_psi s =
     (let n = length (y s);
          orders = [0..<nat (MAX_ORDER + 1)];
          subGamma = map2 (\<lambda>i g. if 0 < i then (if int i \<le> order s then g else 0) else 0)
                          orders (gamma s);
          subD = map2 (\<lambda>i row. map (\<lambda>x. if 0 < i then (if int i \<le> order s then x else 0) else 0) row)
                      orders (D s)
      in s\<lparr>psi := map (\<lambda>x. x * jget (alpha s) (order s)) (dot_mv (mT n subD) subGamma)\<rparr>)"

subsection \<open>Difference-table update after a step\<close>

function diff_loop :: "int \<Rightarrow> mat \<Rightarrow> int \<times> mat" where
  "diff_loop i Dm =
     (if i \<ge> 0 then diff_loop (i - 1) (index_add Dm i (jget Dm (i + 1))) else (i, Dm))"
  by pat_completeness auto
termination
  by (relation "measure (\<lambda>(i, Dm). nat (i + 1))") auto

declare diff_loop.simps [simp del]

definition update_difference_for_next_step :: "state \<Rightarrow> vec \<Rightarrow> bool \<Rightarrow> state" where
  "update_difference_for_next_step s d only_update_D =
     (let D1 = index_update (D s) (order s + 2) (vsub d (jget (D s) (order s + 1)));
          D2 = index_update D1 (order s + 1) d;
          (i, D3) = diff_loop (order s) D2;
          s1 = s\<lparr>D := D3\<rparr>
      in if only_update_D = False then predict (update_psi s1) else s1)"

subsection \<open>Step-size change and Jacobian refresh\<close>

definition update_step_size :: "state \<Rightarrow> real \<Rightarrow> bool \<Rightarrow> state" where
  "update_step_size s factor dont_update_lu =
     (let h1 = h s * factor;
          s1 = s\<lparr>n_equal_steps := 0\<rparr>;
          c1 = h1 * jget (alpha s1) (order s);
          s2 = (if dont_update_lu = False then s1\<lparr>LU := msub (I s1) (msmul c1 (J s1))\<rparr> else s1);
          s3 = s2\<lparr>h := h1, c := c1\<rparr>;
          RU = dot (compute_R (order s) factor) (U s3 ! 0);
          n = nat (MAX_ORDER + 1);
          RU1 = map2 (\<lambda>i row. map2 (\<lambda>j x. if int i \<le> order s \<and> int j \<le> order s then x
                                             else identity n ! i ! j) [0..<n] row) [0..<n] RU;
          s4 = s3\<lparr>D := dot (mT n RU1) (D s3)\<rparr>
      in predict (update_psi s4))"

definition update_jacobian :: "state \<Rightarrow> jacobian \<Rightarrow> state" where
  "update_jacobian s jac =
     (let J1 = jac (t s) (y s)
      in s\<lparr>LU := msub (I s) (msmul (c s) J1), J := J1\<rparr>)"

subsection \<open>Newton iteration\<close>

text \<open>
  The loop state is \<open>[k, not_converged, dy_norm_old, d, y]\<close>. On booleans \<open>+=\<close> is
  disjunction and \<open>*=\<close> is conjunction. The first assignment to \<open>pred\<close> in the source is
  overwritten by the second and is left out.
\<close>

type_synonym newton_state = "nat \<times> bool \<times> real \<times> vec \<times> vec"

definition newton_abort_pred :: "fl \<Rightarrow> nat \<Rightarrow> real \<Rightarrow> real \<Rightarrow> fl \<Rightarrow> bool" where
  "newton_abort_pred tol k dy_norm dy_norm_old rate =
     ((fl_le (Fin 1) rate
       \<or> fl_lt tol (fl_mul (fl_div (fl_pow rate (NEWTON_MAXITER - k)) (fl_sub (Fin 1) rate))
                           (Fin dy_norm)))
      \<and> dy_norm_old < -1)"

definition newton_converged_pred :: "fl \<Rightarrow> real \<Rightarrow> fl \<Rightarrow> bool" where
  "newton_converged_pred tol dy_norm rate =
     ((fl_lt (Fin 0) rate
       \<and> fl_lt (fl_mul (fl_div rate (fl_sub (Fin 1) rate)) (Fin dy_norm)) tol)
      \<or> dy_norm = 0)"

definition newton_body :: "solver \<Rightarrow> rhs \<Rightarrow> state \<Rightarrow> newton_state \<Rightarrow> newton_state" where
  "newton_body lu_solve fn s st =
     (case st of (k, not_converged, dy_norm_old, d, yv) \<Rightarrow>
        let f_eval = fn (t s + h s) yv;
            b = vsub (vsub (smul (c s) f_eval) (psi s)) d;
            dy = lu_solve (LU s) b;
            dy_norm = rms (vdiv dy (scale_y0 s));
            rate = fl_div (Fin dy_norm) (Fin dy_norm_old);
            k1 = (if newton_abort_pred (newton_tol s) k dy_norm dy_norm_old rate
                  then NEWTON_MAXITER else k);
            d1 = vadd d dy;
            y1 = vadd (y0 s) d1
        in if newton_converged_pred (newton_tol s) dy_norm rate
           then (k1, False, dy_norm_old, d1, y1)
           else (k1 + 1, not_converged, dy_norm, d1, y1))"

definition newton_cond :: "newton_state \<Rightarrow> bool" where
  "newton_cond st = (case st of (k, not_converged, _, _, _) \<Rightarrow> not_converged \<and> k < NEWTON_MAXITER)"

function newton_loop :: "solver \<Rightarrow> rhs \<Rightarrow> state \<Rightarrow> newton_state \<Rightarrow> newton_state" where
  "newton_loop lu_solve fn s st =
     (if newton_cond st then newton_loop lu_solve fn s (newton_body lu_solve fn s st) else st)"
  by pat_completeness auto
termination
  by (relation "measure (\<lambda>(lu_solve, fn, s, k, nc, _). if nc then NEWTON_MAXITER - k else 0)")
     (auto simp: newton_cond_def newton_body_def Let_def split: if_splits)

declare newton_loop.simps [simp del]

definition newton_iteration :: "solver \<Rightarrow> rhs \<Rightarrow> state \<Rightarrow> bool \<times> nat \<times> vec \<times> vec" where
  "newton_iteration lu_solve fn s =
     (case newton_loop lu_solve fn s (0, True, -1, zeros (length (y0 s)), y0 s) of
        (k, not_converged, dy_norm_old, d, yv) \<Rightarrow> (not_converged, k + 1, yv, d))"

subsection \<open>One step: retry loop, acceptance, order change\<close>

text \<open>
  Where the model stops. \<open>IndexError\<close>: an array with no entry is indexed.
  \<open>NonFinite\<close>: the value about to be stored as step size is \<open>inf\<close> or nan, which the
  real-valued state does not hold; the source carries on with it. \<open>OutOfFuel\<close>: a loop
  of the source that has no iteration bound has used the iterations granted to the model.
\<close>

datatype stop = IndexError | NonFinite | OutOfFuel

text \<open>\<open>np.argmax\<close>: the first index of the maximum; a nan counts as the maximum.\<close>

fun argmax_from :: "fl list \<Rightarrow> nat \<Rightarrow> fl \<Rightarrow> nat \<Rightarrow> nat" where
  "argmax_from [] i best best_i = best_i"
| "argmax_from (x # xs) i best best_i =
     (if best \<noteq> NaN \<and> (x = NaN \<or> fl_lt best x)
      then argmax_from xs (i + 1) x i
      else argmax_from xs (i + 1) best best_i)"

definition np_argmax :: "fl list \<Rightarrow> nat" where
  "np_argmax xs = (case xs of [] \<Rightarrow> 0 | x # rest \<Rightarrow> argmax_from rest 1 x 0)"

definition error_scale :: "state \<Rightarrow> vec \<Rightarrow> vec" where
  "error_scale s yv = map (\<lambda>v. atol s + rtol s * \<bar>v\<bar>) yv"

definition safety_factor :: "int \<Rightarrow> real" where
  "safety_factor n_iter =
     0.9 * (2 * real NEWTON_MAXITER + 1) / (2 * real NEWTON_MAXITER + real_of_int n_iter)"

type_synonym step_state = "state \<times> bool \<times> bool \<times> vec \<times> vec \<times> int"

text \<open>
  The body of the retry loop. Its loop state is
  \<open>[state, step_accepted, not_updated_jacobian, y, d, n_iter]\<close>.
\<close>

definition step_body :: "solver \<Rightarrow> rhs \<Rightarrow> jacobian \<Rightarrow> step_state \<Rightarrow> step_state" where
  "step_body lu_solve fn jac ws =
     (case ws of (s, step_accepted, not_updated_jacobian, _, _, _) \<Rightarrow>
      case newton_iteration lu_solve fn s of (not_converged, k1, yv, d) \<Rightarrow>
        let n_iter = int k1 in
        if not_converged \<and> not_updated_jacobian
        then (update_jacobian s jac, step_accepted, False, yv, d, n_iter)
        else if not_converged
        then (update_step_size s 0.3 False, step_accepted, not_updated_jacobian, yv, d, n_iter)
        else
          let scale_y = error_scale s yv;
              error = smul (jget (error_const s) (order s)) d;
              error_norm = rms (vdiv error scale_y);
              safety = safety_factor n_iter
          in if error_norm > 1
             then (update_step_size s
                     (max MIN_FACTOR (safety * error_norm powr (- 1 / real_of_int (order s + 1))))
                     False,
                   step_accepted, not_updated_jacobian, yv, d, n_iter)
             else (s, True, not_updated_jacobian, yv, d, n_iter))"

fun step_loop :: "nat \<Rightarrow> solver \<Rightarrow> rhs \<Rightarrow> jacobian \<Rightarrow> step_state \<Rightarrow> stop + step_state" where
  "step_loop fuel lu_solve fn jac (s, step_accepted, rest) =
     (if step_accepted = False
      then (case fuel of
              0 \<Rightarrow> Inl OutOfFuel
            | Suc m \<Rightarrow> step_loop m lu_solve fn jac (step_body lu_solve fn jac (s, step_accepted, rest)))
      else Inr (s, step_accepted, rest))"

text \<open>
  The three candidate step-size factors of \<open>order_change\<close>, for the orders \<open>order - 1\<close>,
  \<open>order\<close> and \<open>order + 1\<close>; the state read here is the one after the difference-table
  update.
\<close>

definition candidate_factors :: "state \<Rightarrow> vec \<Rightarrow> vec \<Rightarrow> fl list" where
  "candidate_factors s d yv =
     (let scale_y = error_scale s yv;
          error = smul (jget (error_const s) (order s)) d;
          error_norm = rms (vdiv error scale_y);
          s1 = update_difference_for_next_step s d True;
          error_m_norm =
            (if order s > 1
             then Fin (rms (vdiv (smul (jget (error_const s1) (order s - 1)) (jget (D s1) (order s)))
                                 scale_y))
             else PInf);
          error_p_norm =
            (if order s < MAX_ORDER
             then Fin (rms (vdiv (smul (jget (error_const s1) (order s + 1)) (jget (D s1) (order s + 2)))
                                 scale_y))
             else PInf);
          error_norms = [error_m_norm, Fin error_norm, error_p_norm]
      in map2 (\<lambda>j e. fl_powr e (- 1 / real_of_int (j + order s))) [0, 1, 2] error_norms)"

definition order_change :: "state \<Rightarrow> vec \<Rightarrow> vec \<Rightarrow> int \<Rightarrow> stop + state" where
  "order_change s d yv n_iter =
     (let safety = safety_factor n_iter;
          s1 = update_difference_for_next_step s d True;
          factors = candidate_factors s d yv;
          max_index = np_argmax factors;
          s2 = s1\<lparr>order := order s + int max_index - 1\<rparr>
      in case np_min2 (Fin MAX_FACTOR) (fl_mul (Fin safety) (jget factors (int max_index))) of
           Fin factor \<Rightarrow> Inr (update_step_size s2 factor False)
         | _ \<Rightarrow> Inl NonFinite)"

definition bdf_step :: "nat \<Rightarrow> solver \<Rightarrow> rhs \<Rightarrow> jacobian \<Rightarrow> state \<Rightarrow> stop + state" where
  "bdf_step fuel lu_solve fn jac s =
     (case step_loop fuel lu_solve fn jac
             (s, False, True, zeros (length (y s)), zeros (length (y s)), - 1) of
        Inl e \<Rightarrow> Inl e
      | Inr (s1, _, _, yv, d, n_iter) \<Rightarrow>
          let s2 = s1\<lparr>y := yv, t := t s1 + h s1\<rparr>;
              s3 = s2\<lparr>n_equal_steps := n_equal_steps s2 + 1\<rparr>
          in if n_equal_steps s3 < order s3 + 1
             then Inr (update_difference_for_next_step s3 d False)
             else order_change s3 d yv n_iter)"

subsection \<open>Interpolation\<close>

function interp_loop :: "state \<Rightarrow> real \<Rightarrow> int \<times> real \<times> vec \<Rightarrow> int \<times> real \<times> vec" where
  "interp_loop s t_eval (j, time_factor, order_summation) =
     (if j < order s
      then (let tf = time_factor * ((t_eval - (t s - h s * real_of_int j)) / (h s * (1 + real_of_int j)))
            in interp_loop s t_eval (j + 1, tf, vadd order_summation (smul tf (jget (D s) (j + 1)))))
      else (j, time_factor, order_summation))"
  by pat_completeness auto
termination
  by (relation "measure (\<lambda>(s, t_eval, j, _). nat (order s - j))") auto

declare interp_loop.simps [simp del]

definition bdf_interpolate :: "state \<Rightarrow> real \<Rightarrow> vec" where
  "bdf_interpolate s t_eval =
     (case interp_loop s t_eval (0, 1, jget (D s) 0) of (j, time_factor, order_summation) \<Rightarrow>
        order_summation)"

subsection \<open>Initialisation\<close>

text \<open>\<open>np.finfo(y0.dtype).eps\<close> for double precision.\<close>

definition EPS :: real where
  "EPS = 1 / 2 ^ 52"

definition select_initial_step :: "real \<Rightarrow> real \<Rightarrow> rhs \<Rightarrow> real \<Rightarrow> vec \<Rightarrow> vec \<Rightarrow> real \<Rightarrow> fl" where
  "select_initial_step atol' rtol' fn t0 y0' f0 h0 =
     (let scale = map (\<lambda>v. atol' + \<bar>v\<bar> * rtol') y0';
          y1 = vadd y0' (smul h0 f0);
          f1 = fn (t0 + h0) y1;
          d2 = fl_sqrt (Fin (mean (vdiv (vsub f1 f0) scale)));
          k = (1 :: int);
          h1 = fl_mul (Fin h0) (fl_powr d2 (- 1 / real_of_int (k + 1)))
      in np_min2 (Fin (100 * h0)) h1)"

definition kappa_table :: vec where
  "kappa_table = [0, - 0.1850, - 1 / 9, - 0.0823, - 0.0415, 0]"

text \<open>\<open>np.hstack((0, np.cumsum(1 / np.arange(1, MAX_ORDER + 1))))\<close>\<close>

fun cumsum_from :: "real \<Rightarrow> vec \<Rightarrow> vec" where
  "cumsum_from acc [] = []"
| "cumsum_from acc (x # xs) = (acc + x) # cumsum_from (acc + x) xs"

definition gamma_table :: vec where
  "gamma_table = 0 # cumsum_from 0 (map (\<lambda>i. 1 / real i) [1..<nat (MAX_ORDER + 1)])"

definition alpha_table :: vec where
  "alpha_table = map2 (\<lambda>k g. 1 / ((1 - k) * g)) kappa_table gamma_table"

definition error_const_table :: vec where
  "error_const_table =
     map2 (+) (map2 (*) kappa_table gamma_table) (map (\<lambda>i. 1 / real i) [1..<nat (MAX_ORDER + 2)])"

text \<open>
  The state is built in the order of the source. \<open>np.empty\<close> is an array of zeros in
  jax.numpy. For \<open>rtol < 0\<close> the source's \<open>rtol ** 0.5\<close> is a complex number in Python;
  nan stands for it here.
\<close>

definition bdf_init :: "rhs \<Rightarrow> jacobian \<Rightarrow> real \<Rightarrow> vec \<Rightarrow> real \<Rightarrow> real \<Rightarrow> real \<Rightarrow> stop + state" where
  "bdf_init fn jac t0 y0' h0 rtol' atol' =
     (let f0 = fn t0 y0';
          n = length y0'
      in case select_initial_step atol' rtol' fn t0 y0' f0 h0 of
           Fin h1 \<Rightarrow>
             let D0 = replicate (nat (MAX_ORDER + 1)) (zeros n);
                 D1 = index_update D0 0 y0';
                 D2 = index_update D1 1 (smul h0 f0);
                 c1 = h0 * jget alpha_table 1;
                 s0 = \<lparr> t = t0, y = y0', atol = atol', rtol = rtol', order = 1, h = h1,
                        newton_tol = np_max2 (fl_div (Fin (10 * EPS)) (Fin rtol'))
                                             (np_min2 (Fin 0.03) (fl_powr (Fin rtol') 0.5)),
                        n_equal_steps = 0, D = D2, y0 = [], scale_y0 = [],
                        I = identity n, kappa = kappa_table, gamma = gamma_table,
                        alpha = alpha_table, c = c1, error_const = error_const_table,
                        J = jac t0 y0',
                        LU = msub (identity n) (msmul c1 (jac t0 y0')),
                        U = map (\<lambda>k. compute_R (int k) 1) [0..<nat MAX_ORDER],
                        psi = [] \<rparr>
             in Inr (update_psi (predict s0))
         | _ \<Rightarrow> Inl NonFinite)"

subsection \<open>The driver loop\<close>

text \<open>
  \<open>np.searchsorted(a, v)\<close> with the default side: for an ascending \<open>a\<close>, the first index
  whose entry is not below \<open>v\<close>.
\<close>

definition searchsorted :: "vec \<Rightarrow> real \<Rightarrow> int" where
  "searchsorted a v = int (length (takeWhile (\<lambda>x. x < v) a))"

function fori_loop :: "int \<Rightarrow> int \<Rightarrow> (int \<Rightarrow> 'a \<Rightarrow> 'a) \<Rightarrow> 'a \<Rightarrow> 'a" where
  "fori_loop start stop body_fun val =
     (if start < stop then fori_loop (start + 1) stop body_fun (body_fun start val) else val)"
  by pat_completeness auto
termination
  by (relation "measure (\<lambda>(start, stop, _). nat (stop - start))") auto

declare fori_loop.simps [simp del]

text \<open>\<open>index_update(y_out, index[:, j], v)\<close>: column \<open>j\<close> of \<open>y_out\<close> becomes \<open>v\<close>.\<close>

definition set_column :: "mat \<Rightarrow> int \<Rightarrow> vec \<Rightarrow> mat" where
  "set_column M j v = map2 (\<lambda>row x. index_update row j x) M v"

definition for_body :: "state \<Rightarrow> vec \<Rightarrow> int \<Rightarrow> mat \<times> int \<Rightarrow> mat \<times> int" where
  "for_body stepper t_eval j for_state =
     (case for_state of (y_out, i) \<Rightarrow>
        (set_column y_out j (bdf_interpolate stepper (jget t_eval j)), i + 1))"

type_synonym loop_state = "state \<times> vec \<times> int \<times> mat"

definition cond_fun :: "loop_state \<Rightarrow> bool" where
  "cond_fun ls = (case ls of (_, t_eval, i, _) \<Rightarrow> i < int (length t_eval))"

definition body_fun :: "nat \<Rightarrow> solver \<Rightarrow> rhs \<Rightarrow> jacobian \<Rightarrow> loop_state \<Rightarrow> stop + loop_state" where
  "body_fun fuel lu_solve fn jac ls =
     (case ls of (stepper, t_eval, i, y_out) \<Rightarrow>
      case bdf_step fuel lu_solve fn jac stepper of
        Inl e \<Rightarrow> Inl e
      | Inr stepper1 \<Rightarrow>
          (let index = searchsorted t_eval (t stepper1)
           in (case fori_loop i index (for_body stepper1 t_eval) (y_out, i) of
                 (y_out1, i1) \<Rightarrow> Inr (stepper1, t_eval, i1, y_out1))))"

fun odeint_loop :: "nat \<Rightarrow> nat \<Rightarrow> solver \<Rightarrow> rhs \<Rightarrow> jacobian \<Rightarrow> loop_state \<Rightarrow> stop + loop_state" where
  "odeint_loop steps fuel lu_solve fn jac ls =
     (if cond_fun ls
      then (case steps of
              0 \<Rightarrow> Inl OutOfFuel
            | Suc m \<Rightarrow>
                (case body_fun fuel lu_solve fn jac ls of
                   Inl e \<Rightarrow> Inl e
                 | Inr ls1 \<Rightarrow> odeint_loop m fuel lu_solve fn jac ls1))
      else Inr ls)"

text \<open>
  The part of \<open>_bdf_odeint\<close> before its loop: the initial step guess, the initial solver
  state and the initial loop state \<open>[stepper, t_eval, i, y_out]\<close>.
\<close>

definition bdf_odeint_init :: "rhs \<Rightarrow> jacobian \<Rightarrow> vec \<Rightarrow> vec \<Rightarrow> real \<Rightarrow> real \<Rightarrow> stop + loop_state" where
  "bdf_odeint_init fn jac y0' t_eval rtol' atol' =
     (if t_eval = [] then Inl IndexError
      else
        let t0 = jget t_eval 0;
            h0 = jget t_eval 1 - t0
        in case bdf_init fn jac t0 y0' h0 rtol' atol' of
             Inl e \<Rightarrow> Inl e
           | Inr stepper \<Rightarrow>
               Inr (stepper, t_eval, 0, replicate (length y0') (zeros (length t_eval))))"

definition bdf_odeint ::
    "nat \<Rightarrow> nat \<Rightarrow> solver \<Rightarrow> rhs \<Rightarrow> jacobian \<Rightarrow> vec \<Rightarrow> vec \<Rightarrow> real \<Rightarrow> real \<Rightarrow> stop + mat" where
  "bdf_odeint steps fuel lu_solve fn jac y0' t_eval rtol' atol' =
     (case bdf_odeint_init fn jac y0' t_eval rtol' atol' of
        Inl e \<Rightarrow> Inl e
      | Inr ls \<Rightarrow>
          (case odeint_loop steps fuel lu_solve fn jac ls of
             Inl e \<Rightarrow> Inl e
           | Inr (stepper, _, i, y_out) \<Rightarrow> Inr y_out))"

text \<open>
  \<open>jax_bdf_integrate\<close> with the Jacobian \<open>jax.jacfwd(fun)\<close> and the linear solver as
  parameters; the initial state is already a flat vector.
\<close>

definition jax_bdf_integrate ::
    "nat \<Rightarrow> nat \<Rightarrow> solver \<Rightarrow> rhs \<Rightarrow> jacobian \<Rightarrow> vec \<Rightarrow> vec \<Rightarrow> real \<Rightarrow> real \<Rightarrow> stop + mat" where
  "jax_bdf_integrate steps fuel lu_solve fn jac y0' t_eval rtol' atol' =
     bdf_odeint steps fuel lu_solve fn jac y0' t_eval rtol' atol'"

subsection \<open>Scalar test problems\<close>

text \<open>The linear solver for one equation: \<open>lu_solve\<close> of a 1 x 1 system.\<close>

definition solve1 :: solver where
  "solve1 M b = [hd b / hd (hd M)]"

definition fn_const :: rhs where
  "fn_const tt yv = [1]"

definition jac_const :: jacobian where
  "jac_const tt yv = [[0]]"

definition fn_sq :: rhs where
  "fn_sq tt yv = [(hd yv)\<^sup>2 + 1]"

definition jac_sq :: jacobian where
  "jac_sq tt yv = [[2 * hd yv]]"

definition fn_ty :: rhs where
  "fn_ty tt yv = [tt * hd yv + 1]"

definition jac_ty :: jacobian where
  "jac_ty tt yv = [[tt]]"

text \<open>
  The state after initialisation at \<open>t0 = 0\<close>, \<open>y0 = [0]\<close>, \<open>h0 = 1\<close>, \<open>rtol = atol = 1\<close>
  for a right-hand side with \<open>f(0, [0]) = [1]\<close> and a zero Jacobian there; the only field
  that depends on the right-hand side further is the refined step size.
\<close>

definition first_state :: "real \<Rightarrow> state" where
  "first_state h1 =
     \<lparr> t = 0, y = [0], atol = 1, rtol = 1, order = 1, h = h1,
       newton_tol = Fin 0.03, n_equal_steps = 0,
       D = [[0], [1], [0], [0], [0], [0]], y0 = [1], scale_y0 = [2],
       I = [[1]], kappa = kappa_table, gamma = gamma_table, alpha = alpha_table,
       c = 200 / 237, error_const = error_const_table, J = [[0]], LU = [[1]],
       U = map (\<lambda>k. compute_R (int k) 1) [0..<nat MAX_ORDER], psi = [200 / 237] \<rparr>"

text \<open>
  The initial state of \<open>y' = 1\<close> with one step already counted at order 1, so that the
  order-change decision is due after the next accepted step.
\<close>

definition due_state :: state where
  "due_state = (first_state 100)\<lparr>n_equal_steps := 1\<rparr>"



subsection \<open>The stepper states of a run\<close>

text \<open>
  The driver calls \<open>_bdf_step\<close> on the state that \<open>_bdf_init\<close> returns and then on the
  state each call returns. \<open>bdf_steps\<close> is that sequence of calls, one entry of the list
  for each call: the number of passes granted to its retry loop.
\<close>

fun bdf_steps :: "nat list \<Rightarrow> solver \<Rightarrow> rhs \<Rightarrow> jacobian \<Rightarrow> state \<Rightarrow> stop + state" where
  "bdf_steps [] lu_solve fn jac s = Inr s"
| "bdf_steps (fuel # fuels) lu_solve fn jac s =
     (case bdf_step fuel lu_solve fn jac s of
        Inl e \<Rightarrow> Inl e
      | Inr s1 \<Rightarrow> bdf_steps fuels lu_solve fn jac s1)"

text \<open>
  What initialisation establishes and every step keeps: the difference table has
  \<open>MAX_ORDER + 1\<close> rows of the length of the solution, the order is at least 1 and below
  \<open>MAX_ORDER\<close>, the first rescaling matrix and the error constants are those of
  initialisation, the stored prediction is the one the predictor gives for the table,
  and \<open>psi\<close> has the length of the solution.
\<close>

definition table_consistent :: "state \<Rightarrow> bool" where
  "table_consistent s \<longleftrightarrow>
     int (length (D s)) = MAX_ORDER + 1
     \<and> (\<forall>row\<in>set (D s). length row = length (y s))
     \<and> 1 \<le> order s \<and> order s < MAX_ORDER
     \<and> U s ! 0 = compute_R 0 1
     \<and> error_const s = error_const_table
     \<and> y0 s = y0 (predict s)
     \<and> length (psi s) = length (y s)"
section \<open>Properties\<close>

subsection \<open>Evaluation lemmas\<close>

lemmas vec_defs = vadd_def vsub_def vdiv_def smul_def zeros_def mean_def
lemmas idx_defs = jget_def norm_index_def in_bounds_def index_update_def index_add_def
lemmas mat_defs = mT_def dot_mv_def dot_def msub_def msmul_def identity_def

lemma rms_single: "rms [x] = \<bar>x\<bar>"
  by (simp add: rms_def mean_def)

lemma gamma_table_eval: "gamma_table = [0, 1, 3/2, 11/6, 25/12, 137/60]"
  by (simp add: gamma_table_def MAX_ORDER_def upt_rec)

lemma alpha_table_eval: "alpha_table = [0, 200/237, 3/5, 60000/119053, 960/2083, 60/137]"
  by (simp add: alpha_table_def gamma_table_eval kappa_table_def)

lemma error_const_table_eval:
  "error_const_table = [1, 63/200, 1/6, 5947/60000, 109/960, 1/6]"
  by (simp add: error_const_table_def gamma_table_eval kappa_table_def MAX_ORDER_def upt_rec)

lemmas init_eval = bdf_init_def select_initial_step_def vec_defs idx_defs mat_defs Let_def
  EPS_def MAX_ORDER_def predict_def update_psi_def upt_rec numeral_eq_Suc

lemmas newton_eval = newton_body_def solve1_def vec_defs Let_def rms_single
  newton_abort_pred_def newton_converged_pred_def NEWTON_MAXITER_def newton_cond_def

lemma init_const: "bdf_init fn_const jac_const 0 [0] 1 1 1 = Inr (first_state 100)"
  by (simp add: init_eval fn_const_def jac_const_def first_state_def)
     (simp add: gamma_table_eval alpha_table_eval)

lemma init_sq: "bdf_init fn_sq jac_sq 0 [0] 1 1 1 = Inr (first_state 1)"
  by (simp add: init_eval fn_sq_def jac_sq_def first_state_def)
     (simp add: gamma_table_eval alpha_table_eval)

lemma init_ty: "bdf_init fn_ty jac_ty 0 [0] 1 1 1 = Inr (first_state 1)"
  by (simp add: init_eval fn_ty_def jac_ty_def first_state_def)
     (simp add: gamma_table_eval alpha_table_eval)

lemma newton_sq_first:
  "newton_body solve1 fn_sq (first_state 1) (0, True, - 1, [0], [1])
     = (1, True, 100 / 237, [200 / 237], [437 / 237])"
  by (simp add: newton_eval first_state_def fn_sq_def)

lemma newton_sq_second:
  "newton_body solve1 fn_sq (first_state 1) (1, True, 100 / 237, [200 / 237], [437 / 237])
     = (1, False, 100 / 237, [38193800 / 13312053], [51505853 / 13312053])"
  by (simp add: newton_eval first_state_def fn_sq_def power2_eq_square)

lemma newton_sq_run:
  "newton_iteration solve1 fn_sq (first_state 1)
     = (False, 2, [51505853 / 13312053], [38193800 / 13312053])"
proof -
  have start: "(0, True, - 1, zeros (length (y0 (first_state 1))), y0 (first_state 1))
      = (0::nat, True, - 1::real, [0::real], [1::real])"
    by (simp add: first_state_def zeros_def)
  have "newton_loop solve1 fn_sq (first_state 1) (0, True, - 1, [0], [1])
      = (1, False, 100 / 237, [38193800 / 13312053], [51505853 / 13312053])"
    apply (subst newton_loop.simps)
    apply (simp only: newton_sq_first)
    apply (subst newton_loop.simps)
    apply (simp only: newton_sq_second)
    apply (subst newton_loop.simps)
    apply (simp add: newton_cond_def NEWTON_MAXITER_def)
    done
  then show ?thesis
    by (simp add: newton_iteration_def start)
qed

text \<open>
  C1. The claim: convergence is declared exactly when the rate is below 1 and the
  projected error \<open>rate / (1 - rate) * |dy|\<close> is below the Newton tolerance, or the
  correction is zero; never at a rate of 1 or more. The code tests \<open>rate > 0\<close>, not
  \<open>rate < 1\<close>: for \<open>y' = y\<^sup>2 + 1\<close>, \<open>y(0) = 0\<close>, output times \<open>[0, 1]\<close> and both
  tolerances 1, the second correction of the first step is 134800/56169 (about 2.4) times
  the first one, the projected error is negative, hence below the tolerance, and the
  iteration returns \<open>not_converged = False\<close>.
\<close>

theorem newton_declares_convergence_at_rate_above_one:
  "bdf_init fn_sq jac_sq 0 [0] 1 1 1 = Inr (first_state 1)
   \<and> newton_body solve1 fn_sq (first_state 1) (0, True, - 1, [0], [1])
       = (1, True, 100 / 237, [200 / 237], [437 / 237])
   \<and> fl_div (Fin (rms (vdiv (vsub [38193800 / 13312053] [200 / 237]) (scale_y0 (first_state 1)))))
             (Fin (100 / 237)) = Fin (134800 / 56169)
   \<and> newton_converged_pred (newton_tol (first_state 1))
        (rms (vdiv (vsub [38193800 / 13312053] [200 / 237]) (scale_y0 (first_state 1))))
        (Fin (134800 / 56169))
   \<and> newton_iteration solve1 fn_sq (first_state 1)
       = (False, 2, [51505853 / 13312053], [38193800 / 13312053])"
  by (simp add: init_sq newton_sq_first newton_sq_run)
     (simp add: first_state_def vec_defs rms_single newton_converged_pred_def)

subsection \<open>Fields left unchanged\<close>

lemma predict_frame [simp]:
  "t (predict s) = t s" "y (predict s) = y s" "order (predict s) = order s"
  "h (predict s) = h s" "D (predict s) = D s" "atol (predict s) = atol s"
  "rtol (predict s) = rtol s" "n_equal_steps (predict s) = n_equal_steps s"
  "error_const (predict s) = error_const s" "alpha (predict s) = alpha s"
  "newton_tol (predict s) = newton_tol s" "c (predict s) = c s" "psi (predict s) = psi s"
  by (simp_all add: predict_def Let_def)

lemma update_psi_frame [simp]:
  "t (update_psi s) = t s" "y (update_psi s) = y s" "order (update_psi s) = order s"
  "h (update_psi s) = h s" "D (update_psi s) = D s" "atol (update_psi s) = atol s"
  "rtol (update_psi s) = rtol s" "n_equal_steps (update_psi s) = n_equal_steps s"
  "error_const (update_psi s) = error_const s" "alpha (update_psi s) = alpha s"
  "newton_tol (update_psi s) = newton_tol s" "c (update_psi s) = c s"
  by (simp_all add: update_psi_def Let_def)

lemma update_difference_frame [simp]:
  "t (update_difference_for_next_step s d b) = t s"
  "y (update_difference_for_next_step s d b) = y s"
  "h (update_difference_for_next_step s d b) = h s"
  "order (update_difference_for_next_step s d b) = order s"
  by (simp_all add: update_difference_for_next_step_def Let_def split: prod.splits)

lemma update_step_size_frame [simp]:
  "order (update_step_size s factor b) = order s"
  "h (update_step_size s factor b) = h s * factor"
  "t (update_step_size s factor b) = t s"
  "y (update_step_size s factor b) = y s"
  "atol (update_step_size s factor b) = atol s"
  "rtol (update_step_size s factor b) = rtol s"
  by (simp_all add: update_step_size_def Let_def)

lemma update_jacobian_frame [simp]:
  "order (update_jacobian s jac) = order s"
  "h (update_jacobian s jac) = h s"
  "t (update_jacobian s jac) = t s"
  "y (update_jacobian s jac) = y s"
  "D (update_jacobian s jac) = D s"
  by (simp_all add: update_jacobian_def Let_def)

subsection \<open>The first step of \<open>y' = 1\<close>\<close>

lemma diff_const: "diff_loop 1 [[0], [1], [0], [0], [0], [0]] = (- 1, [[1], [1], [0], [0], [0], [0]])"
  by (simp add: diff_loop.simps idx_defs vadd_def)

lemma newton_start_first:
  "newton_body solve1 fn_const (first_state 100) (0, True, - 1, [0], [1]) = (0, False, - 1, [0], [1])"
  by (simp add: newton_eval first_state_def fn_const_def)

lemma newton_start_run:
  "newton_iteration solve1 fn_const (first_state 100) = (False, 1, [1], [0])"
proof -
  have start: "(0, True, - 1, zeros (length (y0 (first_state 100))), y0 (first_state 100))
      = (0::nat, True, - 1::real, [0::real], [1::real])"
    by (simp add: first_state_def zeros_def)
  have "newton_loop solve1 fn_const (first_state 100) (0, True, - 1, [0], [1])
      = (0, False, - 1, [0], [1])"
    apply (subst newton_loop.simps)
    apply (simp only: newton_start_first)
    apply (subst newton_loop.simps)
    apply (simp add: newton_cond_def NEWTON_MAXITER_def)
    done
  then show ?thesis
    unfolding newton_iteration_def start by simp
qed

lemma step_body_start:
  "step_body solve1 fn_const jac_const (first_state 100, False, True, [0], [0], - 1)
    = (first_state 100, True, True, [1], [0], 1)"
  apply (simp add: step_body_def newton_start_run)
  apply (simp add: first_state_def error_scale_def idx_defs error_const_table_eval vec_defs rms_single)
  done

lemma step_loop_start:
  "step_loop 1 solve1 fn_const jac_const (first_state 100, False, True, [0], [0], - 1)
    = Inr (first_state 100, True, True, [1], [0], 1)"
  by (simp add: step_body_start)

lemma bdf_step_start:
  "bdf_step 1 solve1 fn_const jac_const (first_state 100)
    = Inr (update_difference_for_next_step
        ((first_state 100)\<lparr>y := [1], t := 100, n_equal_steps := 1\<rparr>) [0] False)"
proof -
  have start: "(first_state 100, False, True, zeros (length (y (first_state 100))),
        zeros (length (y (first_state 100))), - 1)
      = (first_state 100, False, True, [0], [0], - 1)"
    by (simp add: first_state_def zeros_def)
  show ?thesis
    unfolding bdf_step_def start step_loop_start
    by (simp add: first_state_def)
qed


lemma newton_abort_pred_dead:
  "- 1 \<le> dy_norm_old \<Longrightarrow> \<not> newton_abort_pred tol k dy_norm dy_norm_old rate"
  by (simp add: newton_abort_pred_def)

lemma newton_ty_first:
  "newton_body solve1 fn_ty (first_state 1) (0, True, - 1, [0], [1])
     = (1, True, 100 / 237, [200 / 237], [437 / 237])"
  by (simp add: newton_eval first_state_def fn_ty_def)

lemma newton_ty_second:
  "newton_body solve1 fn_ty (first_state 1) (1, True, 100 / 237, [200 / 237], [437 / 237])
     = (2, True, 20000 / 56169, [87400 / 56169], [143569 / 56169])"
  by (simp add: newton_eval first_state_def fn_ty_def numeral_eq_Suc)

lemma newton_ty_third:
  "newton_body solve1 fn_ty (first_state 1)
       (2, True, 20000 / 56169, [87400 / 56169], [143569 / 56169])
     = (3, True, 4000000 / 13312053, [28713800 / 13312053], [42025853 / 13312053])"
  by (simp add: newton_eval first_state_def fn_ty_def numeral_eq_Suc)

lemma newton_ty_fourth:
  "newton_body solve1 fn_ty (first_state 1)
       (3, True, 4000000 / 13312053, [28713800 / 13312053], [42025853 / 13312053])
     = (4, True, 800000000 / 3154956561, [8405170600 / 3154956561], [11560127161 / 3154956561])"
  by (simp add: newton_eval first_state_def fn_ty_def numeral_eq_Suc)

lemma newton_ty_run:
  "newton_iteration solve1 fn_ty (first_state 1)
     = (True, 5, [11560127161 / 3154956561], [8405170600 / 3154956561])"
proof -
  have start: "(0, True, - 1, zeros (length (y0 (first_state 1))), y0 (first_state 1))
      = (0::nat, True, - 1::real, [0::real], [1::real])"
    by (simp add: first_state_def zeros_def)
  have "newton_loop solve1 fn_ty (first_state 1) (0, True, - 1, [0], [1])
      = (4, True, 800000000 / 3154956561, [8405170600 / 3154956561], [11560127161 / 3154956561])"
    apply (subst newton_loop.simps)
    apply (simp only: newton_ty_first)
    apply (subst newton_loop.simps)
    apply (simp only: newton_ty_second)
    apply (subst newton_loop.simps)
    apply (simp only: newton_ty_third)
    apply (subst newton_loop.simps)
    apply (simp only: newton_ty_fourth)
    apply (subst newton_loop.simps)
    apply (simp add: newton_cond_def NEWTON_MAXITER_def)
    done
  then show ?thesis
    by (simp add: newton_iteration_def start)
qed

text \<open>
  C2. The claim: an iteration with \<open>rate \<ge> 1\<close>, or whose projection
  \<open>rate ** (NEWTON_MAXITER - k) / (1 - rate) * |dy|\<close> exceeds the tolerance, ends the
  Newton loop early. The code multiplies the abort test by \<open>dy_norm_old < -1\<close>, which
  never holds (\<open>dy_norm_old\<close> is \<open>-1\<close> or a norm), so the loop never ends early: for
  \<open>y' = t * y + 1\<close>, \<open>y(0) = 0\<close>, output times \<open>[0, 1]\<close> and both tolerances 1, the second
  iteration has rate 200/237 and a projection above the tolerance, the abort test is false,
  and all four iterations are run.
\<close>

theorem newton_never_aborts_early:
  "bdf_init fn_ty jac_ty 0 [0] 1 1 1 = Inr (first_state 1)
   \<and> newton_body solve1 fn_ty (first_state 1) (1, True, 100 / 237, [200 / 237], [437 / 237])
       = (2, True, 20000 / 56169, [87400 / 56169], [143569 / 56169])
   \<and> fl_lt (newton_tol (first_state 1))
        (fl_mul (fl_div (fl_pow (Fin (200 / 237)) (NEWTON_MAXITER - 1))
                        (fl_sub (Fin 1) (Fin (200 / 237))))
                (Fin (20000 / 56169)))
   \<and> \<not> newton_abort_pred (newton_tol (first_state 1)) 1 (20000 / 56169) (100 / 237)
          (Fin (200 / 237))
   \<and> newton_iteration solve1 fn_ty (first_state 1)
       = (True, 5, [11560127161 / 3154956561], [8405170600 / 3154956561])"
  apply (intro conjI)
      apply (rule init_ty)
     apply (rule newton_ty_second)
    apply (simp add: first_state_def NEWTON_MAXITER_def numeral_eq_Suc)
   apply (rule newton_abort_pred_dead, simp)
  apply (rule newton_ty_run)
  done

subsection \<open>Initialisation and the shape of the difference table\<close>

text \<open>
  C8. The claim: after initialisation row 1 of \<open>D\<close> is \<open>h * f(t0, y0)\<close> for the refined
  step size \<open>h\<close> stored in the state. The code stores \<open>f0 * h0\<close>, with the guess \<open>h0\<close>:
  for \<open>y' = 1\<close>, \<open>y(0) = 0\<close>, \<open>h0 = 1\<close> the refined step is \<open>100 * h0 = 100\<close>, row 1 is
  \<open>[1]\<close> and \<open>h * f(t0, y0)\<close> is \<open>[100]\<close>. The first step is then accepted with the time
  moved by \<open>h = 100\<close> and the solution by \<open>h0 * f0 = 1\<close>.
\<close>

theorem initial_row_one_uses_step_guess:
  "bdf_init fn_const jac_const 0 [0] 1 1 1 = Inr (first_state 100)
   \<and> h (first_state 100) = 100
   \<and> jget (D (first_state 100)) 0 = [0]
   \<and> jget (D (first_state 100)) 1 = [1]
   \<and> smul (h (first_state 100)) (fn_const 0 [0]) = [100]
   \<and> (case bdf_step 1 solve1 fn_const jac_const (first_state 100) of
        Inl e \<Rightarrow> False
      | Inr s1 \<Rightarrow> t s1 = 100 \<and> y s1 = [1])"
proof (intro conjI)
  show "bdf_init fn_const jac_const 0 [0] 1 1 1 = Inr (first_state 100)"
    by (rule init_const)
  show "case bdf_step 1 solve1 fn_const jac_const (first_state 100) of
        Inl e \<Rightarrow> False
      | Inr s1 \<Rightarrow> t s1 = 100 \<and> y s1 = [1]"
    by (simp only: bdf_step_start sum.case) (simp add: first_state_def)
qed (simp_all add: first_state_def idx_defs smul_def fn_const_def)

text \<open>
  C4. The claim: \<open>D\<close> has \<open>MAX_ORDER + 2\<close> rows, so row \<open>order + 2\<close> exists for every order
  up to \<open>MAX_ORDER\<close>. The code allocates \<open>MAX_ORDER + 1\<close> rows: rows 6 and 7, which are
  \<open>order + 2\<close> at the orders 4 and 5, and row \<open>order + 1\<close> at order 5, do not exist.
\<close>

theorem difference_table_row_count:
  "bdf_init fn_const jac_const 0 [0] 1 1 1 = Inr (first_state 100)
   \<and> int (length (D (first_state 100))) = MAX_ORDER + 1
   \<and> \<not> in_bounds (D (first_state 100)) (4 + 2)
   \<and> \<not> in_bounds (D (first_state 100)) (MAX_ORDER + 2)
   \<and> \<not> in_bounds (D (first_state 100)) (MAX_ORDER + 1)"
proof (intro conjI)
  show "bdf_init fn_const jac_const 0 [0] 1 1 1 = Inr (first_state 100)"
    by (rule init_const)
qed (simp_all add: first_state_def idx_defs MAX_ORDER_def)

text \<open>
  The number of rows of \<open>D\<close> is \<open>MAX_ORDER + 1\<close> after initialisation and after every
  step, whatever the order.
\<close>

lemma index_update_length [simp]: "length (index_update xs i v) = length xs"
  by (simp add: index_update_def)

lemma index_add_length [simp]: "length (index_add xs i v) = length xs"
  by (simp add: index_add_def)

lemma diff_loop_length: "length (snd (diff_loop i Dm)) = length Dm"
proof (induction i Dm rule: diff_loop.induct)
  case (1 i Dm)
  then show ?case
    by (subst diff_loop.simps) simp
qed

lemma update_difference_rows:
  "length (D (update_difference_for_next_step s d b)) = length (D s)"
  using diff_loop_length[of "order s"
      "index_update (index_update (D s) (order s + 2) (vsub d (jget (D s) (order s + 1)))) (order s + 1) d"]
  by (auto simp: update_difference_for_next_step_def Let_def split: prod.splits)

lemma update_step_size_rows:
  "int (length (D (update_step_size s factor b))) = MAX_ORDER + 1"
  by (simp add: update_step_size_def Let_def dot_def mT_def MAX_ORDER_def)

lemma bdf_init_rows:
  "bdf_init fn jac t0 y0' h0 rtol' atol' = Inr s \<Longrightarrow> int (length (D s)) = MAX_ORDER + 1"
  by (auto simp: bdf_init_def Let_def MAX_ORDER_def split: fl.splits)

lemma step_body_rows:
  "int (length (D (fst ws))) = MAX_ORDER + 1 \<Longrightarrow>
   int (length (D (fst (step_body lu_solve fn jac ws)))) = MAX_ORDER + 1"
  by (auto simp: step_body_def Let_def update_step_size_rows split: prod.splits)

lemma step_loop_rows:
  "step_loop fuel lu_solve fn jac ws = Inr ws' \<Longrightarrow> int (length (D (fst ws))) = MAX_ORDER + 1
   \<Longrightarrow> int (length (D (fst ws'))) = MAX_ORDER + 1"
proof (induction fuel arbitrary: ws)
  case 0
  then show ?case by (cases ws) (auto split: if_splits)
next
  case (Suc fuel)
  obtain s acc rest where ws: "ws = (s, acc, rest)" by (cases ws) auto
  show ?case
  proof (cases acc)
    case True
    with Suc.prems ws show ?thesis by auto
  next
    case False
    with Suc.prems ws
    have "step_loop fuel lu_solve fn jac (step_body lu_solve fn jac ws) = Inr ws'"
      by simp
    from Suc.IH[OF this step_body_rows[OF Suc.prems(2)]] show ?thesis .
  qed
qed

lemma bdf_step_rows:
  assumes "int (length (D s)) = MAX_ORDER + 1" "bdf_step fuel lu_solve fn jac s = Inr s'"
  shows "int (length (D s')) = MAX_ORDER + 1"
proof -
  from assms(2) obtain s1 acc nuj yv d n_iter where
    loop: "step_loop fuel lu_solve fn jac
             (s, False, True, zeros (length (y s)), zeros (length (y s)), - 1)
           = Inr (s1, acc, nuj, yv, d, n_iter)"
    by (auto simp: bdf_step_def split: sum.splits)
  have r1: "int (length (D s1)) = MAX_ORDER + 1"
    using step_loop_rows[OF loop] assms(1) by simp
  define s3 where "s3 = s1\<lparr>y := yv, t := t s1 + h s1, n_equal_steps := n_equal_steps s1 + 1\<rparr>"
  have res: "s' = update_difference_for_next_step s3 d False \<or> order_change s3 d yv n_iter = Inr s'"
    using assms(2) unfolding bdf_step_def loop
    by (auto simp: Let_def s3_def split: if_splits)
  then show ?thesis
  proof
    assume "s' = update_difference_for_next_step s3 d False"
    then show ?thesis using r1 by (simp add: update_difference_rows s3_def)
  next
    assume "order_change s3 d yv n_iter = Inr s'"
    then show ?thesis
      by (auto simp: order_change_def Let_def update_step_size_rows split: fl.splits)
  qed
qed

subsection \<open>The order stays between 1 and MAX\_ORDER\<close>

lemma rms_nonneg: "0 \<le> rms v"
proof -
  have "0 \<le> sum_list (map (\<lambda>x. x\<^sup>2) v)"
    by (rule sum_list_nonneg) auto
  then show ?thesis
    by (simp add: rms_def mean_def)
qed

lemma fl_powr_pos: "0 \<le> e \<Longrightarrow> p < 0 \<Longrightarrow> fl_lt (Fin 0) (fl_powr (Fin e) p)"
  by simp

lemma argmax3_le: "np_argmax [a, b, c'] \<le> 2"
  by (simp add: np_argmax_def)

lemma argmax3_low: "fl_lt (Fin 0) b \<Longrightarrow> 1 \<le> np_argmax [Fin 0, b, c']"
  by (cases b) (auto simp: np_argmax_def)

lemma argmax3_high:
  "fl_lt (Fin 0) a \<Longrightarrow> fl_lt (Fin 0) b \<Longrightarrow> np_argmax [a, b, Fin 0] \<le> 1"
  by (cases a; cases b) (auto simp: np_argmax_def)

lemma candidate_factors_shape:
  "\<exists>em en ep. 0 \<le> em \<and> 0 \<le> en \<and> 0 \<le> ep \<and> candidate_factors s d yv =
     [fl_powr (if order s > 1 then Fin em else PInf) (- 1 / real_of_int (order s)),
      fl_powr (Fin en) (- 1 / real_of_int (1 + order s)),
      fl_powr (if order s < MAX_ORDER then Fin ep else PInf) (- 1 / real_of_int (2 + order s))]"
  apply (simp only: candidate_factors_def Let_def)
  apply (rule exI[where x = "rms (vdiv (smul (jget (error_const (update_difference_for_next_step s d True)) (order s - 1)) (jget (D (update_difference_for_next_step s d True)) (order s))) (error_scale s yv))"])
  apply (rule exI[where x = "rms (vdiv (smul (jget (error_const s) (order s)) d) (error_scale s yv))"])
  apply (rule exI[where x = "rms (vdiv (smul (jget (error_const (update_difference_for_next_step s d True)) (order s + 1)) (jget (D (update_difference_for_next_step s d True)) (order s + 2))) (error_scale s yv))"])
  apply (simp add: rms_nonneg)
  done

lemma order_change_order:
  "order_change s d yv n_iter = Inr s' \<Longrightarrow>
     order s' = order s + int (np_argmax (candidate_factors s d yv)) - 1"
  by (auto simp: order_change_def Let_def split: fl.splits)

lemma step_body_order:
  "order (fst (step_body lu_solve fn jac ws)) = order (fst ws)"
  by (simp add: step_body_def Let_def split: prod.splits)

lemma step_loop_order:
  "step_loop fuel lu_solve fn jac ws = Inr ws' \<Longrightarrow> order (fst ws') = order (fst ws)"
proof (induction fuel arbitrary: ws)
  case 0
  then show ?case by (cases ws) (auto split: if_splits)
next
  case (Suc fuel)
  obtain s acc rest where ws: "ws = (s, acc, rest)" by (cases ws) auto
  show ?case
  proof (cases acc)
    case True
    with Suc.prems ws show ?thesis by auto
  next
    case False
    with Suc.prems ws
    have "step_loop fuel lu_solve fn jac (step_body lu_solve fn jac ws) = Inr ws'"
      by simp
    from Suc.IH[OF this] show ?thesis
      by (simp add: step_body_order)
  qed
qed

lemma order_change_in_range:
  assumes lo: "1 \<le> order s" and hi: "order s \<le> MAX_ORDER"
    and res: "order_change s d yv n_iter = Inr s'"
  shows "1 \<le> order s' \<and> order s' \<le> MAX_ORDER"
proof -
  obtain em en ep where nn: "0 \<le> em" "0 \<le> en" "0 \<le> ep"
    and fs: "candidate_factors s d yv =
     [fl_powr (if order s > 1 then Fin em else PInf) (- 1 / real_of_int (order s)),
      fl_powr (Fin en) (- 1 / real_of_int (1 + order s)),
      fl_powr (if order s < MAX_ORDER then Fin ep else PInf) (- 1 / real_of_int (2 + order s))]"
    using candidate_factors_shape by blast
  have new: "order s' = order s + int (np_argmax (candidate_factors s d yv)) - 1"
    using res by (rule order_change_order)
  have mid: "fl_lt (Fin 0) (fl_powr (Fin en) (- 1 / real_of_int (1 + order s)))"
    using nn lo by (intro fl_powr_pos) auto
  have le2: "np_argmax (candidate_factors s d yv) \<le> 2"
    unfolding fs by (rule argmax3_le)
  consider (one) "order s = 1" | (top) "order s = MAX_ORDER" "1 < order s"
    | (between) "1 < order s" "order s < MAX_ORDER"
    using lo hi by linarith
  then show ?thesis
  proof cases
    case one
    have f0: "fl_powr (if order s > 1 then Fin em else PInf) (- 1 / real_of_int (order s)) = Fin 0"
      using one by simp
    have "1 \<le> np_argmax (candidate_factors s d yv)"
      unfolding fs f0 by (rule argmax3_low[OF mid])
    with le2 new one show ?thesis by (simp add: MAX_ORDER_def)
  next
    case top
    have f2: "fl_powr (if order s < MAX_ORDER then Fin ep else PInf)
                (- 1 / real_of_int (2 + order s)) = Fin 0"
      using top by (simp add: MAX_ORDER_def)
    have low: "fl_lt (Fin 0) (fl_powr (if order s > 1 then Fin em else PInf)
                (- 1 / real_of_int (order s)))"
      using nn top by simp
    have "np_argmax (candidate_factors s d yv) \<le> 1"
      unfolding fs f2 by (rule argmax3_high[OF low mid])
    with new top show ?thesis by (simp add: MAX_ORDER_def)
  next
    case between
    with le2 new show ?thesis by simp
  qed
qed

text \<open>
  C3. For every state with \<open>1 \<le> order \<le> MAX_ORDER\<close>, the state returned by a step, after
  any number of Newton failures and rejections inside it and with or without an order
  change, has its order in the same range. The order change cannot pick \<open>order - 1\<close> at
  order 1, nor \<open>order + 1\<close> at \<open>MAX_ORDER\<close>: the factor of the missing neighbour is
  \<open>inf ** negative = 0\<close>, and the factor of the current order is positive.
\<close>

theorem bdf_step_keeps_order_in_range:
  assumes "1 \<le> order s" and "order s \<le> MAX_ORDER"
    and "bdf_step fuel lu_solve fn jac s = Inr s'"
  shows "1 \<le> order s' \<and> order s' \<le> MAX_ORDER"
proof -
  from assms(3) obtain s1 acc nuj yv d n_iter where
    loop: "step_loop fuel lu_solve fn jac
             (s, False, True, zeros (length (y s)), zeros (length (y s)), - 1)
           = Inr (s1, acc, nuj, yv, d, n_iter)"
    by (auto simp: bdf_step_def split: sum.splits)
  have o1: "order s1 = order s"
    using step_loop_order[OF loop] by simp
  define s3 where "s3 = s1\<lparr>y := yv, t := t s1 + h s1, n_equal_steps := n_equal_steps s1 + 1\<rparr>"
  have o3: "order s3 = order s" by (simp add: s3_def o1)
  have res: "s' = update_difference_for_next_step s3 d False \<or> order_change s3 d yv n_iter = Inr s'"
    using assms(3) unfolding bdf_step_def loop
    by (auto simp: Let_def s3_def split: if_splits)
  then show ?thesis
  proof
    assume "s' = update_difference_for_next_step s3 d False"
    then show ?thesis using assms(1,2) o3 by simp
  next
    assume "order_change s3 d yv n_iter = Inr s'"
    then show ?thesis
      using order_change_in_range[of s3 d yv n_iter s'] assms(1,2) o3 by simp
  qed
qed

lemma newton_const_first:
  "newton_body solve1 fn_const (due_state) (0, True, - 1, [0], [1]) = (0, False, - 1, [0], [1])"
  by (simp add: newton_eval due_state_def first_state_def fn_const_def)

lemma newton_const_run:
  "newton_iteration solve1 fn_const (due_state) = (False, 1, [1], [0])"
proof -
  have start: "(0, True, - 1, zeros (length (y0 (due_state))), y0 (due_state))
      = (0::nat, True, - 1::real, [0::real], [1::real])"
    by (simp add: due_state_def first_state_def zeros_def)
  have "newton_loop solve1 fn_const (due_state) (0, True, - 1, [0], [1])
      = (0, False, - 1, [0], [1])"
    apply (subst newton_loop.simps)
    apply (simp only: newton_const_first)
    apply (subst newton_loop.simps)
    apply (simp add: newton_cond_def NEWTON_MAXITER_def)
    done
  then show ?thesis
    unfolding newton_iteration_def start by simp
qed

lemma step_body_const:
  "step_body solve1 fn_const jac_const (due_state, False, True, [0], [0], - 1)
    = (due_state, True, True, [1], [0], 1)"
  apply (simp add: step_body_def newton_const_run)
  apply (simp add: due_state_def first_state_def error_scale_def idx_defs error_const_table_eval vec_defs rms_single)
  done

lemma step_loop_const:
  "step_loop 1 solve1 fn_const jac_const (due_state, False, True, [0], [0], - 1)
    = Inr (due_state, True, True, [1], [0], 1)"
  by (simp add: step_body_const)

lemma upd_const:
  "D (update_difference_for_next_step
        (due_state\<lparr>y := [1], t := 100, n_equal_steps := 2\<rparr>) [0] True)
     = [[1], [1], [0], [0], [0], [0]]"
  apply (simp add: update_difference_for_next_step_def Let_def)
  apply (simp add: due_state_def first_state_def idx_defs vec_defs diff_const)
  done

lemma upd_const_ec:
  "error_const (update_difference_for_next_step s d True) = error_const s"
  by (simp add: update_difference_for_next_step_def Let_def split: prod.splits)

lemma factors_const:
  "candidate_factors (due_state\<lparr>y := [1], t := 100, n_equal_steps := 2\<rparr>) [0] [1]
    = [Fin 0, PInf, PInf]"
  apply (simp add: candidate_factors_def Let_def upd_const upd_const_ec)
  apply (simp add: due_state_def first_state_def error_scale_def idx_defs error_const_table_eval vec_defs rms_single MAX_ORDER_def)
  done

lemma order_change_const:
  "order_change (due_state\<lparr>y := [1], t := 100, n_equal_steps := 2\<rparr>) [0] [1] 1
    = Inr (update_step_size ((update_difference_for_next_step
        (due_state\<lparr>y := [1], t := 100, n_equal_steps := 2\<rparr>) [0] True)\<lparr>order := 1\<rparr>) 10 False)"
  apply (simp add: order_change_def Let_def factors_const)
  apply (simp add: np_argmax_def safety_factor_def NEWTON_MAXITER_def MAX_FACTOR_def idx_defs due_state_def first_state_def)
  done

lemma bdf_step_const:
  "bdf_step 1 solve1 fn_const jac_const (due_state)
    = Inr (update_step_size ((update_difference_for_next_step
        (due_state\<lparr>y := [1], t := 100, n_equal_steps := 2\<rparr>) [0] True)\<lparr>order := 1\<rparr>) 10 False)"
proof -
  have start: "(due_state, False, True, zeros (length (y (due_state))),
        zeros (length (y (due_state))), - 1)
      = (due_state, False, True, [0], [0], - 1)"
    by (simp add: due_state_def first_state_def zeros_def)
  have s3: "due_state\<lparr>y := [1], t := t (due_state) + h (due_state),
       n_equal_steps := n_equal_steps (due_state\<lparr>y := [1], t := t (due_state) + h (due_state)\<rparr>) + 1\<rparr>
     = due_state\<lparr>y := [1], t := 100, n_equal_steps := 2\<rparr>"
    by (simp add: due_state_def first_state_def)
  show ?thesis
    unfolding bdf_step_def start step_loop_const
    apply (simp only: sum.case prod.case Let_def s3)
    apply (simp add: order_change_const)
    apply (simp add: due_state_def first_state_def)
    done
qed

theorem bdf_step_keeps_order_in_range_witness:
  "(case bdf_step 1 solve1 fn_const jac_const (due_state) of
      Inl e \<Rightarrow> False
    | Inr s1 \<Rightarrow> 1 \<le> order s1 \<and> order s1 \<le> MAX_ORDER)"
proof -
  have lo: "1 \<le> order (due_state)"
    and hi: "order (due_state) \<le> MAX_ORDER"
    by (simp_all add: due_state_def first_state_def MAX_ORDER_def)
  show ?thesis
    using bdf_step_keeps_order_in_range[OF lo hi bdf_step_const]
    by (simp only: bdf_step_const sum.case)
qed

subsection \<open>Ties between candidate orders\<close>

lemma fl_le_not_lt: "fl_le a b \<Longrightarrow> \<not> fl_lt b a"
  by (cases a; cases b) auto

lemma fl_lt_not_NaN: "fl_lt a b \<Longrightarrow> a \<noteq> NaN \<and> b \<noteq> NaN"
  by (cases a; cases b) auto

lemma fl_le_not_NaN: "fl_le a b \<Longrightarrow> a \<noteq> NaN \<and> b \<noteq> NaN"
  by (cases a; cases b) auto

lemma argmax3_first:
  "fl_le b a \<Longrightarrow> fl_le c' a \<Longrightarrow> np_argmax [a, b, c'] = 0"
  by (auto simp: np_argmax_def dest: fl_le_not_lt fl_le_not_NaN)

lemma argmax3_second:
  "fl_lt a b \<Longrightarrow> fl_le c' b \<Longrightarrow> np_argmax [a, b, c'] = 1"
  by (auto simp: np_argmax_def dest: fl_le_not_lt fl_le_not_NaN fl_lt_not_NaN)

lemma argmax3_third:
  "fl_lt a c' \<Longrightarrow> fl_lt b c' \<Longrightarrow> np_argmax [a, b, c'] = 2"
  by (auto simp: np_argmax_def dest: fl_lt_not_NaN)

text \<open>
  C9. In the order change the candidate with the largest factor is taken, and among equal
  largest factors the one with the lowest index: \<open>order - 1\<close> when its factor is not
  below the other two, \<open>order\<close> when its factor is above that of \<open>order - 1\<close> and not
  below that of \<open>order + 1\<close>, and \<open>order + 1\<close> only when its factor is above both.
\<close>

theorem order_change_takes_first_maximum:
  assumes "order_change s d yv n_iter = Inr s'"
    and "candidate_factors s d yv = [fm, f0, fp]"
  shows "(fl_le f0 fm \<and> fl_le fp fm \<longrightarrow> order s' = order s - 1)
       \<and> (fl_lt fm f0 \<and> fl_le fp f0 \<longrightarrow> order s' = order s)
       \<and> (fl_lt fm fp \<and> fl_lt f0 fp \<longrightarrow> order s' = order s + 1)"
  using order_change_order[OF assms(1)] assms(2)
  by (auto simp: argmax3_first argmax3_second argmax3_third)

theorem order_change_takes_first_maximum_witness:
  "candidate_factors (due_state\<lparr>y := [1], t := 100, n_equal_steps := 2\<rparr>) [0] [1]
      = [Fin 0, PInf, PInf]
   \<and> fl_lt (Fin 0) PInf \<and> fl_le PInf PInf
   \<and> (case order_change (due_state\<lparr>y := [1], t := 100, n_equal_steps := 2\<rparr>) [0] [1] 1 of
        Inl e \<Rightarrow> False
      | Inr s1 \<Rightarrow> order s1 = order (due_state\<lparr>y := [1], t := 100, n_equal_steps := 2\<rparr>))"
  using order_change_takes_first_maximum[OF order_change_const factors_const]
  by (simp only: order_change_const factors_const sum.case) simp

subsection \<open>Rejections shrink the step\<close>


lemma safety_factor_bounds:
  "1 \<le> n_iter \<Longrightarrow> 0 < safety_factor n_iter \<and> safety_factor n_iter \<le> 0.9"
  by (simp add: safety_factor_def NEWTON_MAXITER_def field_simps)






subsection \<open>The driver loop\<close>








lemma jget_in_set:
  assumes "xs \<noteq> []"
  shows "jget xs i \<in> set xs"
proof -
  have "0 < length xs" using assms by simp
  then have "nat (max 0 (min (norm_index xs i) (int (length xs) - 1))) < length xs"
    by linarith
  then show ?thesis by (simp add: jget_def)
qed









subsection \<open>Stepping never leaves the finite step sizes\<close>

text \<open>
  From a state of order at least 1, a step stops in the model only when the retry loop
  has used its fuel: the factor of an order change is a finite number, because the
  candidate factors are non-negative or \<open>inf\<close>, \<open>safety\<close> is positive and the factor is
  capped by \<open>MAX_FACTOR\<close>.
\<close>

lemma fl_powr_nonneg: "0 \<le> e \<Longrightarrow> p < 0 \<Longrightarrow> fl_le (Fin 0) (fl_powr (Fin e) p)"
  by simp

lemma candidate_factors_nonneg:
  assumes "1 \<le> order s" "f \<in> set (candidate_factors s d yv)"
  shows "fl_le (Fin 0) f"
proof -
  obtain em en ep where nn: "0 \<le> em" "0 \<le> en" "0 \<le> ep"
    and fs: "candidate_factors s d yv =
     [fl_powr (if order s > 1 then Fin em else PInf) (- 1 / real_of_int (order s)),
      fl_powr (Fin en) (- 1 / real_of_int (1 + order s)),
      fl_powr (if order s < MAX_ORDER then Fin ep else PInf) (- 1 / real_of_int (2 + order s))]"
    using candidate_factors_shape by blast
  have p: "- 1 / real_of_int (order s) < 0" "- 1 / real_of_int (1 + order s) < 0"
    "- 1 / real_of_int (2 + order s) < 0"
    using assms(1) by simp_all
  have "fl_le (Fin 0) (fl_powr (if order s > 1 then Fin em else PInf) (- 1 / real_of_int (order s)))"
    using nn p(1) by simp
  moreover have "fl_le (Fin 0) (fl_powr (Fin en) (- 1 / real_of_int (1 + order s)))"
    using nn p(2) by (intro fl_powr_nonneg)
  moreover have "fl_le (Fin 0) (fl_powr (if order s < MAX_ORDER then Fin ep else PInf)
       (- 1 / real_of_int (2 + order s)))"
    using nn p(3) by simp
  ultimately show ?thesis using assms(2) unfolding fs by auto
qed

lemma scaled_min_finite:
  "0 < a \<Longrightarrow> fl_le (Fin 0) f \<Longrightarrow> \<exists>x. np_min2 (Fin MAX_FACTOR) (fl_mul (Fin a) f) = Fin x"
  by (cases f) auto

lemma candidate_factors_nonempty: "candidate_factors s d yv \<noteq> []"
  using candidate_factors_shape[of s d yv] by auto

lemma order_change_total:
  assumes "1 \<le> order s" "1 \<le> n_iter"
  shows "\<exists>s'. order_change s d yv n_iter = Inr s'"
proof -
  let ?f = "jget (candidate_factors s d yv) (int (np_argmax (candidate_factors s d yv)))"
  have "?f \<in> set (candidate_factors s d yv)"
    by (rule jget_in_set[OF candidate_factors_nonempty])
  then have "fl_le (Fin 0) ?f"
    using candidate_factors_nonneg[OF assms(1)] by blast
  moreover have "0 < safety_factor n_iter"
    using safety_factor_bounds[OF assms(2)] by simp
  ultimately obtain x where "np_min2 (Fin MAX_FACTOR) (fl_mul (Fin (safety_factor n_iter)) ?f) = Fin x"
    using scaled_min_finite by blast
  then show ?thesis by (simp add: order_change_def Let_def)
qed

lemma step_body_n_iter:
  "step_body lu_solve fn jac ws = (s', acc', nuj', yv', d', n_iter') \<Longrightarrow> 1 \<le> n_iter'"
  by (cases "newton_iteration lu_solve fn (fst ws)")
     (auto simp: step_body_def Let_def newton_iteration_def split: prod.splits if_splits)

lemma step_loop_n_iter:
  "step_loop fuel lu_solve fn jac (s, acc, nuj, yv, d, n_iter) = Inr (s', acc', nuj', yv', d', n_iter')
   \<Longrightarrow> \<not> acc \<or> 1 \<le> n_iter \<Longrightarrow> 1 \<le> n_iter'"
proof (induction fuel arbitrary: s acc nuj yv d n_iter)
  case 0
  then show ?case by (auto split: if_splits)
next
  case (Suc fuel)
  show ?case
  proof (cases acc)
    case True
    with Suc.prems show ?thesis by auto
  next
    case False
    obtain s1 acc1 nuj1 yv1 d1 n1 where
      b: "step_body lu_solve fn jac (s, acc, nuj, yv, d, n_iter) = (s1, acc1, nuj1, yv1, d1, n1)"
      by (cases "step_body lu_solve fn jac (s, acc, nuj, yv, d, n_iter)") auto
    have "1 \<le> n1" using step_body_n_iter[OF b] .
    moreover have "step_loop fuel lu_solve fn jac (s1, acc1, nuj1, yv1, d1, n1)
        = Inr (s', acc', nuj', yv', d', n_iter')"
      using Suc.prems(1) False b by simp
    ultimately show ?thesis using Suc.IH by blast
  qed
qed

lemma step_loop_stop:
  "step_loop fuel lu_solve fn jac ws = Inl e \<Longrightarrow> e = OutOfFuel"
proof (induction fuel arbitrary: ws)
  case 0
  then show ?case by (cases ws) (auto split: if_splits)
next
  case (Suc fuel)
  obtain s acc rest where ws: "ws = (s, acc, rest)" by (cases ws) auto
  show ?case
  proof (cases acc)
    case True
    with Suc.prems ws show ?thesis by auto
  next
    case False
    with Suc.prems ws
    have "step_loop fuel lu_solve fn jac (step_body lu_solve fn jac ws) = Inl e"
      by simp
    then show ?thesis by (rule Suc.IH)
  qed
qed

lemma bdf_step_stops_only_without_fuel:
  assumes "1 \<le> order s" "bdf_step fuel lu_solve fn jac s = Inl e"
  shows "e = OutOfFuel"
proof (cases "step_loop fuel lu_solve fn jac
             (s, False, True, zeros (length (y s)), zeros (length (y s)), - 1)")
  case (Inl e')
  then have "e' = OutOfFuel" by (rule step_loop_stop)
  with assms(2) Inl show ?thesis
    unfolding bdf_step_def by simp
next
  case (Inr ws)
  obtain s1 acc nuj yv d n_iter where ws: "ws = (s1, acc, nuj, yv, d, n_iter)"
    by (cases ws) auto
  have n: "1 \<le> n_iter"
    using step_loop_n_iter[OF Inr[unfolded ws]] by simp
  have o1: "order s1 = order s"
    using step_loop_order[OF Inr] by (simp add: ws)
  define s3 where "s3 = s1\<lparr>y := yv, t := t s1 + h s1, n_equal_steps := n_equal_steps s1 + 1\<rparr>"
  have "1 \<le> order s3" using assms(1) o1 by (simp add: s3_def)
  from order_change_total[OF this n]
  obtain s' where "order_change s3 d yv n_iter = Inr s'" by blast
  with assms(2) show ?thesis
    unfolding bdf_step_def Inr ws
    by (auto simp: Let_def s3_def split: if_splits)
qed

subsection \<open>Row 0 of the difference table after a step below order 5\<close>

text \<open>
  Where row \<open>order + 1\<close> exists, that is up to order 4 in the six rows of \<open>D\<close>, the
  difference-table update leaves in row 0 the sum of the rows \<open>0..order\<close> and of the
  correction \<open>d\<close>, which is the predicted state plus \<open>d\<close>; the rescaling of a step-size
  change keeps row 0; and interpolation at the current time returns row 0.
\<close>

lemma vadd_nth: "k < length u \<Longrightarrow> k < length v \<Longrightarrow> vadd u v ! k = u ! k + v ! k"
  by (simp add: vadd_def)

lemma vadd_length: "length (vadd u v) = min (length u) (length v)"
  by (simp add: vadd_def)

lemma row_length: "\<forall>row\<in>set Dm. length row = n \<Longrightarrow> j < length Dm \<Longrightarrow> length (Dm ! j) = n"
  by simp

lemma diff_loop_row_zero:
  assumes "\<forall>row\<in>set Dm. length row = n" "k < n"
  shows "Suc i < length Dm \<Longrightarrow>
         snd (diff_loop (int i) Dm) ! 0 ! k = (\<Sum>j\<le>Suc i. Dm ! j ! k)"
  using assms(1)
proof (induction i arbitrary: Dm)
  case 0
  have len: "length (Dm ! 0) = n" "length (Dm ! Suc 0) = n"
    using 0 by (auto intro: row_length)
  have "diff_loop 0 Dm = (- 1, Dm[0 := vadd (Dm ! 0) (Dm ! Suc 0)])"
    using 0 by (simp add: diff_loop.simps idx_defs)
  moreover have "vadd (Dm ! 0) (Dm ! Suc 0) ! k = Dm ! 0 ! k + Dm ! Suc 0 ! k"
    by (rule vadd_nth) (simp_all add: len assms(2))
  moreover have "Dm \<noteq> []" using 0 by auto
  ultimately show ?case
    by simp
next
  case (Suc i)
  let ?D1 = "Dm[Suc i := vadd (Dm ! Suc i) (Dm ! Suc (Suc i))]"
  have len: "length (Dm ! Suc i) = n" "length (Dm ! Suc (Suc i)) = n"
    using Suc.prems by (auto intro: row_length)
  have step: "diff_loop (int (Suc i)) Dm = diff_loop (int i) ?D1"
    using Suc.prems(1)
    by (subst diff_loop.simps) (simp add: idx_defs nat_add_distrib)
  have rows: "\<forall>row\<in>set ?D1. length row = n"
    using Suc.prems(2) len
    by (auto simp: vadd_length dest!: set_update_subset_insert[THEN subsetD])
  have "snd (diff_loop (int i) ?D1) ! 0 ! k = (\<Sum>j\<le>Suc i. ?D1 ! j ! k)"
    using Suc.IH[OF _ rows] Suc.prems(1) by simp
  also have "\<dots> = (\<Sum>j\<le>i. ?D1 ! j ! k) + ?D1 ! Suc i ! k"
    by simp
  also have "(\<Sum>j\<le>i. ?D1 ! j ! k) = (\<Sum>j\<le>i. Dm ! j ! k)"
    by (rule sum.cong) auto
  also have "?D1 ! Suc i ! k = Dm ! Suc i ! k + Dm ! Suc (Suc i) ! k"
    using Suc.prems(1) len assms(2) by (simp add: vadd_nth)
  finally show ?case
    unfolding step by simp
qed

lemma compute_R_shape:
  "length (compute_R k f) = 6" "\<forall>row\<in>set (compute_R k f). length row = 6"
  by (simp_all add: compute_R_def cumprod0_def MAX_ORDER_def upt_rec numeral_eq_Suc Let_def)

lemma compute_R_column_zero:
  "map (\<lambda>row. row ! 0) (compute_R k f) = [1, 0, 0, 0, 0, 0]"
  by (simp add: compute_R_def cumprod0_def MAX_ORDER_def upt_rec numeral_eq_Suc Let_def)

lemma six_elements:
  assumes "length xs = 6"
  obtains a0 a1 a2 a3 a4 a5 where "xs = [a0, a1, a2, a3, a4, a5]"
  using assms by (auto simp: numeral_eq_Suc length_Suc_conv)

lemma dot_unit_right:
  fixes row :: vec
  assumes "length row = 6"
  shows "sum_list (map2 (*) row [1, 0, 0, 0, 0, 0]) = row ! 0"
  using assms by (elim six_elements) simp

lemma dot_unit_left:
  fixes col :: vec
  assumes "length col = 6"
  shows "sum_list (map2 (*) [1, 0, 0, 0, 0, 0] col) = col ! 0"
  using assms by (elim six_elements) simp

lemma rescale_column_zero:
  "map (\<lambda>row. row ! 0) (dot (compute_R k f) (compute_R 0 1)) = [1, 0, 0, 0, 0, 0]"
proof -
  obtain b0 b1 b2 b3 b4 b5 where B: "compute_R 0 1 = [b0, b1, b2, b3, b4, b5]"
    using compute_R_shape(1)[of 0 1] by (elim six_elements)
  have b0: "length b0 = 6"
    using compute_R_shape(2)[of 0 1] by (simp add: B)
  have col: "map (\<lambda>r. r ! 0) [b0, b1, b2, b3, b4, b5] = [1, 0, 0, 0, 0, 0]"
    using compute_R_column_zero[of 0 1] by (simp only: B)
  have "map (\<lambda>row. row ! 0) (dot (compute_R k f) (compute_R 0 1))
      = map (\<lambda>row. sum_list (map2 (*) row [1, 0, 0, 0, 0, 0])) (compute_R k f)"
    unfolding dot_def B
    by (simp only: list.case map_map o_def b0 col[symmetric]) (simp add: upt_rec numeral_eq_Suc)
  also have "\<dots> = map (\<lambda>row. row ! 0) (compute_R k f)"
    using compute_R_shape(2)[of k f] by (intro map_cong refl dot_unit_right) simp
  finally show ?thesis
    by (simp only: compute_R_column_zero)
qed

lemma dot_shape:
  "length (dot A B) = length A"
  "\<forall>row\<in>set (dot A B). length row = (case B of [] \<Rightarrow> 0 | r # _ \<Rightarrow> length r)"
  by (auto simp: dot_def)

lemma masked_column_zero:
  fixes RU :: mat
  assumes len: "length RU = 6" and rows: "\<forall>row\<in>set RU. length row = 6"
    and col: "map (\<lambda>row. row ! 0) RU = [1, 0, 0, 0, 0, 0]"
  shows "mT 6 (map2 (\<lambda>i row. map2 (\<lambda>j x. if int i \<le> k \<and> int j \<le> k then x
                                             else identity 6 ! i ! j) [0..<6] row) [0..<6] RU) ! 0
         = [1, 0, 0, 0, 0, 0]"
proof -
  obtain q0 q1 q2 q3 q4 q5 where RU: "RU = [q0, q1, q2, q3, q4, q5]"
    using len by (elim six_elements)
  have l: "length q0 = 6" "length q1 = 6" "length q2 = 6" "length q3 = 6" "length q4 = 6" "length q5 = 6"
    using rows by (simp_all add: RU)
  obtain a0 a1 a2 a3 a4 a5 where q0: "q0 = [a0, a1, a2, a3, a4, a5]" using l(1) by (elim six_elements)
  obtain b0 b1 b2 b3 b4 b5 where q1: "q1 = [b0, b1, b2, b3, b4, b5]" using l(2) by (elim six_elements)
  obtain c0 c1 c2 c3 c4 c5 where q2: "q2 = [c0, c1, c2, c3, c4, c5]" using l(3) by (elim six_elements)
  obtain d0 d1 d2 d3 d4 d5 where q3: "q3 = [d0, d1, d2, d3, d4, d5]" using l(4) by (elim six_elements)
  obtain e0 e1 e2 e3 e4 e5 where q4: "q4 = [e0, e1, e2, e3, e4, e5]" using l(5) by (elim six_elements)
  obtain f0 f1 f2 f3 f4 f5 where q5: "q5 = [f0, f1, f2, f3, f4, f5]" using l(6) by (elim six_elements)
  have heads: "a0 = 1" "b0 = 0" "c0 = 0" "d0 = 0" "e0 = 0" "f0 = 0"
    using col by (simp_all add: RU q0 q1 q2 q3 q4 q5)
  show ?thesis
    by (simp add: RU q0 q1 q2 q3 q4 q5 heads mT_def identity_def upt_rec numeral_eq_Suc)
qed

lemma dot_first_row:
  fixes A B :: mat
  assumes A: "A ! 0 = [1, 0, 0, 0, 0, 0]" "A \<noteq> []"
    and B: "length B = 6" "\<forall>row\<in>set B. length row = n"
  shows "dot A B ! 0 = B ! 0"
proof -
  obtain r0 r1 r2 r3 r4 r5 where Bs: "B = [r0, r1, r2, r3, r4, r5]"
    using B(1) by (elim six_elements)
  have "dot A B ! 0 = map (\<lambda>j. sum_list (map2 (*) (A ! 0) (map (\<lambda>r. r ! j) B))) [0..<length r0]"
    using A(2) by (simp add: dot_def Bs)
  also have "\<dots> = map (\<lambda>j. r0 ! j) [0..<length r0]"
    by (simp add: A(1) Bs)
  also have "\<dots> = r0" by (rule map_nth)
  finally show ?thesis by (simp add: Bs)
qed

lemma update_step_size_row_zero:
  assumes U: "U s ! 0 = compute_R 0 1"
    and shape: "length (D s) = 6" "\<forall>row\<in>set (D s). length row = n"
  shows "jget (D (update_step_size s factor b)) 0 = jget (D s) 0"
proof -
  let ?RU = "dot (compute_R (order s) factor) (compute_R 0 1)"
  let ?A = "mT 6 (map2 (\<lambda>i row. map2 (\<lambda>j x. if int i \<le> order s \<and> int j \<le> order s then x
                                             else identity 6 ! i ! j) [0..<6] row) [0..<6] ?RU)"
  have D': "D (update_step_size s factor b) = dot ?A (D s)"
    by (simp add: update_step_size_def Let_def U MAX_ORDER_def)
  obtain b0 b1 b2 b3 b4 b5 where B: "compute_R 0 1 = [b0, b1, b2, b3, b4, b5]"
    using compute_R_shape(1)[of 0 1] by (elim six_elements)
  have b0: "length b0 = 6"
    using compute_R_shape(2)[of 0 1] by (simp add: B)
  have ru: "length ?RU = 6" "\<forall>row\<in>set ?RU. length row = 6"
    using dot_shape[of "compute_R (order s) factor" "compute_R 0 1"] compute_R_shape(1)[of "order s" factor]
    by (simp_all add: B b0)
  have A0: "?A ! 0 = [1, 0, 0, 0, 0, 0]"
    by (rule masked_column_zero[OF ru rescale_column_zero])
  have Ane: "?A \<noteq> []" by (simp add: mT_def)
  have "dot ?A (D s) ! 0 = D s ! 0"
    by (rule dot_first_row[OF A0 Ane shape])
  moreover have "dot ?A (D s) \<noteq> []" using Ane by (simp add: dot_def)
  moreover have "D s \<noteq> []" using shape(1) by auto
  ultimately show ?thesis
    by (simp add: D' jget_def norm_index_def)
qed

lemma update_difference_row_zero:
  assumes rows: "\<forall>row\<in>set (D s). length row = n" and d: "length d = n" and k: "k < n"
    and ord: "0 \<le> order s" "order s + 1 < int (length (D s))"
  shows "jget (D (update_difference_for_next_step s d b)) 0 ! k
           = (\<Sum>j\<le>nat (order s). D s ! j ! k) + d ! k"
proof -
  define m where "m = nat (order s)"
  have o: "order s = int m" and m: "Suc m < length (D s)"
    using ord by (simp_all add: m_def)
  define v where "v = vsub d (jget (D s) (order s + 1))"
  define D2 where "D2 = index_update (index_update (D s) (order s + 2) v) (order s + 1) d"
  have ne: "D s \<noteq> []" using m by auto
  have lv: "length v = n"
    using rows d jget_in_set[OF ne, of "order s + 1"] by (simp add: v_def vsub_def)
  have D2: "D2 = (if Suc (Suc m) < length (D s) then (D s)[Suc (Suc m) := v] else D s)[Suc m := d]"
    using m by (simp add: D2_def idx_defs o nat_add_distrib)
  have len2: "length D2 = length (D s)" by (simp add: D2)
  have rows2: "\<forall>row\<in>set D2. length row = n"
    using rows lv d unfolding D2
    by (auto dest!: set_update_subset_insert[THEN subsetD])
  have low: "D2 ! j = D s ! j" if "j \<le> m" for j
    using that by (simp add: D2)
  have top: "D2 ! Suc m = d"
    using m by (simp add: D2)
  have "snd (diff_loop (int m) D2) ! 0 ! k = (\<Sum>j\<le>Suc m. D2 ! j ! k)"
    using m by (intro diff_loop_row_zero[OF rows2 k]) (simp add: len2)
  also have "\<dots> = (\<Sum>j\<le>m. D2 ! j ! k) + D2 ! Suc m ! k" by simp
  also have "(\<Sum>j\<le>m. D2 ! j ! k) = (\<Sum>j\<le>m. D s ! j ! k)"
    by (rule sum.cong) (simp_all add: low)
  finally have sum: "snd (diff_loop (int m) D2) ! 0 ! k = (\<Sum>j\<le>m. D s ! j ! k) + d ! k"
    by (simp add: top)
  have Dnew: "D (update_difference_for_next_step s d b) = snd (diff_loop (int m) D2)"
    by (auto simp: update_difference_for_next_step_def Let_def D2_def v_def o split: prod.splits)
  have "snd (diff_loop (int m) D2) \<noteq> []"
    using diff_loop_length[of "int m" D2] len2 ne by auto
  then have "jget (snd (diff_loop (int m) D2)) 0 = snd (diff_loop (int m) D2) ! 0"
    by (simp add: jget_def norm_index_def)
  with sum have "jget (snd (diff_loop (int m) D2)) 0 ! k = (\<Sum>j\<le>m. D s ! j ! k) + d ! k"
    by simp
  then show ?thesis
    unfolding Dnew by (simp only: m_def)
qed

lemma orders_range: "[0..<nat (MAX_ORDER + 1)] = [0, 1, 2, 3, 4, 5]"
  by (simp add: MAX_ORDER_def upt_rec)

lemma predict_nth:
  assumes shape: "length (D s) = 6" "\<forall>row\<in>set (D s). length row = length (y s)"
    and k: "k < length (y s)"
    and ord: "0 \<le> order s" "order s \<le> MAX_ORDER"
  shows "y0 (predict s) ! k = (\<Sum>j\<le>nat (order s). D s ! j ! k)"
proof -
  obtain r0 r1 r2 r3 r4 r5 where Ds: "D s = [r0, r1, r2, r3, r4, r5]"
    using shape(1) by (elim six_elements)
  have l: "k < length r0" "k < length r1" "k < length r2" "k < length r3" "k < length r4"
    "k < length r5"
    using shape(2) k by (simp_all add: Ds)
  have y0: "y0 (predict s) ! k =
      (if 0 \<le> order s then r0 ! k else 0) + (if 1 \<le> order s then r1 ! k else 0)
    + (if 2 \<le> order s then r2 ! k else 0) + (if 3 \<le> order s then r3 ! k else 0)
    + (if 4 \<le> order s then r4 ! k else 0) + (if 5 \<le> order s then r5 ! k else 0)"
    using k l
    by (simp add: predict_def Let_def Ds mT_def orders_range)
  have "order s = 0 \<or> order s = 1 \<or> order s = 2 \<or> order s = 3 \<or> order s = 4 \<or> order s = 5"
    using ord by (auto simp: MAX_ORDER_def)
  then show ?thesis
    unfolding y0
    by (elim disjE) (simp_all add: Ds numeral_eq_Suc)
qed

lemma vadd_smul_zero: "length v = length u \<Longrightarrow> vadd u (smul 0 v) = u"
  by (rule nth_equalityI) (simp_all add: vadd_def smul_def)

lemma interp_loop_zero:
  assumes "D s \<noteq> []" "\<forall>row\<in>set (D s). length row = n"
  shows "length acc = n \<Longrightarrow> snd (snd (interp_loop s x (j, 0, acc))) = acc"
proof (induction "nat (order s - j)" arbitrary: j)
  case 0
  then show ?case by (simp add: interp_loop.simps)
next
  case (Suc k)
  then have lt: "j < order s" by simp
  have row: "length (jget (D s) (j + 1)) = length acc"
    using assms jget_in_set Suc.prems by metis
  have k: "k = nat (order s - (j + 1))" using Suc(2) by simp
  show ?case
    apply (subst interp_loop.simps)
    using lt apply (simp add: Let_def vadd_smul_zero[OF row])
    apply (rule Suc(1)[OF k Suc.prems])
    done
qed

lemma interp_at_step_time:
  assumes "D s \<noteq> []" "\<forall>row\<in>set (D s). length row = n"
  shows "bdf_interpolate s (t s) = jget (D s) 0"
proof -
  have l0: "length (jget (D s) 0) = n" and l1: "length (jget (D s) 1) = length (jget (D s) 0)"
    using assms jget_in_set by metis+
  show ?thesis
  proof (cases "0 < order s")
    case False
    then show ?thesis
      by (simp add: bdf_interpolate_def interp_loop.simps)
  next
    case True
    have "interp_loop s (t s) (0, 1, jget (D s) 0) = interp_loop s (t s) (1, 0, jget (D s) 0)"
      using True by (subst interp_loop.simps) (simp add: Let_def vadd_smul_zero[OF l1])
    then show ?thesis
      using interp_loop_zero[OF assms l0, of "t s" 1]
      by (auto simp: bdf_interpolate_def split: prod.splits)
  qed
qed

lemma vadd_zeros: "vadd u (zeros (length u)) = u"
  by (rule nth_equalityI) (simp_all add: vadd_def zeros_def)

lemma newton_loop_sum:
  "(case st of (k, nc, dno, d, yv) \<Rightarrow> yv = vadd (y0 s) d) \<Longrightarrow>
   (case newton_loop lu_solve fn s st of (k, nc, dno, d, yv) \<Rightarrow> yv = vadd (y0 s) d)"
proof (induction lu_solve fn s st rule: newton_loop.induct)
  case (1 lu_solve fn s st)
  show ?case
  proof (cases "newton_cond st")
    case True
    have "case newton_body lu_solve fn s st of (k, nc, dno, d, yv) \<Rightarrow> yv = vadd (y0 s) d"
      by (auto simp: newton_body_def Let_def split: prod.splits)
    from 1(1)[OF True this] True show ?thesis
      by (subst newton_loop.simps) simp
  next
    case False
    then show ?thesis using 1(2) by (subst newton_loop.simps) simp
  qed
qed

lemma newton_iteration_sum:
  assumes "newton_iteration lu_solve fn s = (nc, k1, yv, d)"
  shows "yv = vadd (y0 s) d"
proof -
  have "case (0::nat, True, - 1::real, zeros (length (y0 s)), y0 s) of
          (k, nc, dno, d, yv) \<Rightarrow> yv = vadd (y0 s) d"
    by (simp add: vadd_zeros)
  from newton_loop_sum[OF this, of lu_solve fn] assms show ?thesis
    by (auto simp: newton_iteration_def split: prod.splits)
qed

lemma step_body_sum:
  assumes "step_body lu_solve fn jac (s, False, nuj, yv, d, n) = (s', True, nuj', yv', d', n')"
  shows "s' = s \<and> yv' = vadd (y0 s) d'"
proof -
  obtain nc k1 y1 d1 where newton: "newton_iteration lu_solve fn s = (nc, k1, y1, d1)"
    by (cases "newton_iteration lu_solve fn s") auto
  from assms show ?thesis
    using newton_iteration_sum[OF newton]
    by (auto simp: step_body_def newton Let_def split: if_splits)
qed

lemma step_loop_sum:
  "step_loop fuel lu_solve fn jac (s, False, nuj, yv, d, n) = Inr (s1, acc1, nuj1, yv1, d1, n1)
   \<Longrightarrow> yv1 = vadd (y0 s1) d1"
proof (induction fuel arbitrary: s nuj yv d n)
  case 0
  then show ?case by simp
next
  case (Suc fuel)
  obtain s' acc' nuj' yv' d' n' where
    b: "step_body lu_solve fn jac (s, False, nuj, yv, d, n) = (s', acc', nuj', yv', d', n')"
    by (cases "step_body lu_solve fn jac (s, False, nuj, yv, d, n)") auto
  have next_loop: "step_loop fuel lu_solve fn jac (s', acc', nuj', yv', d', n')
      = Inr (s1, acc1, nuj1, yv1, d1, n1)"
    using Suc.prems b by simp
  show ?case
  proof (cases acc')
    case True
    then have "s1 = s'" "yv1 = yv'" "d1 = d'"
      using next_loop by (cases fuel; simp)+
    moreover have "step_body lu_solve fn jac (s, False, nuj, yv, d, n) = (s', True, nuj', yv', d', n')"
      using b True by simp
    ultimately show ?thesis using step_body_sum by blast
  next
    case False
    with next_loop have "step_loop fuel lu_solve fn jac (s', False, nuj', yv', d', n')
        = Inr (s1, acc1, nuj1, yv1, d1, n1)"
      by simp
    then show ?thesis by (rule Suc.IH)
  qed
qed

lemma diff_loop_rows:
  "\<forall>row\<in>set Dm. length row = n \<Longrightarrow> \<forall>row\<in>set (snd (diff_loop i Dm)). length row = n"
proof (induction i Dm rule: diff_loop.induct)
  case (1 i Dm)
  show ?case
  proof (cases "0 \<le> i")
    case False
    then show ?thesis using 1(2) by (subst diff_loop.simps) simp
  next
    case True
    have "\<forall>row\<in>set (index_add Dm i (jget Dm (i + 1))). length row = n"
    proof (cases "Dm = []")
      case True
      then show ?thesis by (simp add: index_add_def)
    next
      case False
      then have "length (vadd (jget Dm i) (jget Dm (i + 1))) = n"
        using 1(2) jget_in_set[OF False] by (simp add: vadd_length)
      then show ?thesis
        using 1(2) by (auto simp: index_add_def dest!: set_update_subset_insert[THEN subsetD])
    qed
    from 1(1)[OF True this] True show ?thesis
      by (subst diff_loop.simps) simp
  qed
qed

lemma update_difference_table:
  "D (update_difference_for_next_step s d b) = D (update_difference_for_next_step s d True)"
  by (simp add: update_difference_for_next_step_def Let_def split: prod.splits)

lemma update_difference_shape:
  assumes "\<forall>row\<in>set (D s). length row = n" "length d = n"
  shows "\<forall>row\<in>set (D (update_difference_for_next_step s d b)). length row = n"
proof -
  define D2 where "D2 = index_update (index_update (D s) (order s + 2)
      (vsub d (jget (D s) (order s + 1)))) (order s + 1) d"
  have "\<forall>row\<in>set D2. length row = n"
  proof (cases "D s = []")
    case True
    then show ?thesis by (simp add: D2_def index_update_def in_bounds_def)
  next
    case False
    then have "length (vsub d (jget (D s) (order s + 1))) = n"
      using assms jget_in_set[OF False] by (simp add: vsub_def)
    then show ?thesis
      using assms unfolding D2_def
      by (auto simp: index_update_def dest!: set_update_subset_insert[THEN subsetD])
  qed
  then have "\<forall>row\<in>set (snd (diff_loop (order s) D2)). length row = n"
    by (rule diff_loop_rows)
  moreover have "D (update_difference_for_next_step s d b) = snd (diff_loop (order s) D2)"
    by (auto simp: update_difference_for_next_step_def Let_def D2_def split: prod.splits)
  ultimately show ?thesis by simp
qed

lemma predict_length: "length (y0 (predict s)) = length (y s)"
  by (simp add: predict_def Let_def mT_def)

lemma update_difference_row_zero_vec:
  assumes shape: "length (D s) = 6" "\<forall>row\<in>set (D s). length row = length (y s)"
    and d: "length d = length (y s)"
    and ord: "0 \<le> order s" "order s \<le> 4"
  shows "jget (D (update_difference_for_next_step s d b)) 0 = vadd (y0 (predict s)) d"
proof (rule nth_equalityI)
  have ne: "D (update_difference_for_next_step s d b) \<noteq> []"
    using update_difference_rows[of s d b] shape(1) by auto
  show len: "length (jget (D (update_difference_for_next_step s d b)) 0)
      = length (vadd (y0 (predict s)) d)"
    using update_difference_shape[OF shape(2) d, of b] jget_in_set[OF ne, of 0]
    by (simp add: vadd_length predict_length d)
  fix k assume "k < length (jget (D (update_difference_for_next_step s d b)) 0)"
  then have k: "k < length (y s)"
    using len by (simp add: vadd_length predict_length d)
  have "jget (D (update_difference_for_next_step s d b)) 0 ! k
      = (\<Sum>j\<le>nat (order s). D s ! j ! k) + d ! k"
    using ord shape(1) by (intro update_difference_row_zero[OF shape(2) d k]) simp_all
  also have "(\<Sum>j\<le>nat (order s). D s ! j ! k) = y0 (predict s) ! k"
    using ord by (intro predict_nth[symmetric] shape k) (simp_all add: MAX_ORDER_def)
  also have "y0 (predict s) ! k + d ! k = vadd (y0 (predict s)) d ! k"
    using k by (simp add: vadd_nth predict_length d)
  finally show "jget (D (update_difference_for_next_step s d b)) 0 ! k
      = vadd (y0 (predict s)) d ! k" .
qed


lemma predict_cong:
  "D a = D b \<Longrightarrow> order a = order b \<Longrightarrow> length (y a) = length (y b)
   \<Longrightarrow> y0 (predict a) = y0 (predict b)"
  by (simp add: predict_def Let_def)

lemma update_difference_only_table:
  "update_difference_for_next_step s d True
     = s\<lparr>D := D (update_difference_for_next_step s d True)\<rparr>"
  by (simp add: update_difference_for_next_step_def Let_def split: prod.splits)

lemma order_change_result:
  assumes "order_change s d yv n_iter = Inr s'"
  obtains factor k where
    "s' = update_step_size ((update_difference_for_next_step s d True)\<lparr>order := k\<rparr>) factor False"
  using assms by (auto simp: order_change_def Let_def split: fl.splits)

subsection \<open>What every step keeps\<close>

text \<open>
  The linear solver and the right-hand side are taken to return vectors of the length of
  their argument, for the length of the solution.
\<close>

lemma vsub_length: "length (vsub u v) = min (length u) (length v)"
  by (simp add: vsub_def)

lemma smul_length: "length (smul a v) = length v"
  by (simp add: smul_def)

lemma newton_body_length:
  assumes solver: "\<forall>A b. length b = n \<longrightarrow> length (lu_solve A b) = n"
    and rhs: "\<forall>tt v. length v = n \<longrightarrow> length (fn tt v) = n"
    and s: "length (y0 s) = n" "length (psi s) = n"
    and st: "case st of (k, nc, dno, d, yv) \<Rightarrow> length d = n \<and> length yv = n"
  shows "case newton_body lu_solve fn s st of (k, nc, dno, d, yv) \<Rightarrow> length d = n \<and> length yv = n"
proof -
  obtain k nc dno d yv where st': "st = (k, nc, dno, d, yv)" by (cases st) auto
  with st have l: "length d = n" "length yv = n" by auto
  have b: "length (vsub (vsub (smul (c s) (fn (t s + h s) yv)) (psi s)) d) = n"
    using rhs l s by (simp add: vsub_length smul_length)
  have dy: "length (lu_solve (LU s) (vsub (vsub (smul (c s) (fn (t s + h s) yv)) (psi s)) d)) = n"
    using solver b by blast
  show ?thesis
    using l s dy by (simp add: st' newton_body_def Let_def vadd_length)
qed

lemma newton_loop_length:
  "\<forall>A b. length b = n \<longrightarrow> length (lu_solve A b) = n \<Longrightarrow>
   \<forall>tt v. length v = n \<longrightarrow> length (fn tt v) = n \<Longrightarrow>
   length (y0 s) = n \<Longrightarrow> length (psi s) = n \<Longrightarrow>
   (case st of (k, nc, dno, d, yv) \<Rightarrow> length d = n \<and> length yv = n) \<Longrightarrow>
   (case newton_loop lu_solve fn s st of (k, nc, dno, d, yv) \<Rightarrow> length d = n \<and> length yv = n)"
proof (induction lu_solve fn s st rule: newton_loop.induct)
  case (1 lu_solve fn s st)
  show ?case
  proof (cases "newton_cond st")
    case True
    have "case newton_body lu_solve fn s st of (k, nc, dno, d, yv) \<Rightarrow> length d = n \<and> length yv = n"
      using 1(2-6) by (rule newton_body_length)
    from 1(1)[OF True 1(2-5) this] True show ?thesis
      by (subst newton_loop.simps) simp
  next
    case False
    then show ?thesis using 1(6) by (subst newton_loop.simps) simp
  qed
qed

lemma newton_iteration_length:
  assumes solver: "\<forall>A b. length b = n \<longrightarrow> length (lu_solve A b) = n"
    and rhs: "\<forall>tt v. length v = n \<longrightarrow> length (fn tt v) = n"
    and s: "length (y0 s) = n" "length (psi s) = n"
    and res: "newton_iteration lu_solve fn s = (nc, k1, yv, d)"
  shows "length d = n \<and> length yv = n"
proof -
  have "case (0::nat, True, - 1::real, zeros (length (y0 s)), y0 s) of
          (k, nc, dno, d, yv) \<Rightarrow> length d = n \<and> length yv = n"
    using s by (simp add: zeros_def)
  from newton_loop_length[OF solver rhs s this] res show ?thesis
    by (auto simp: newton_iteration_def split: prod.splits)
qed

lemma update_step_size_consistent:
  assumes "table_consistent s"
  shows "table_consistent (update_step_size s factor b)"
proof -
  let ?s' = "update_step_size s factor b"
  obtain r rs where cons: "D s = r # rs"
    using assms by (cases "D s") (auto simp: table_consistent_def MAX_ORDER_def)
  have r: "length r = length (y s)"
    using assms cons by (auto simp: table_consistent_def)
  have rows: "\<forall>row\<in>set (D ?s'). length row = length (y s)"
    using cons r by (auto simp: update_step_size_def Let_def dot_def)
  have fields: "U ?s' = U s" "error_const ?s' = error_const s" "length (psi ?s') = length (y s)"
    by (simp_all add: update_step_size_def Let_def predict_def update_psi_def dot_mv_def mT_def)
  have pred: "y0 ?s' = y0 (predict ?s')"
    by (simp add: update_step_size_def Let_def predict_def)
  show ?thesis
    using assms rows fields pred
    by (simp add: table_consistent_def update_step_size_rows)
qed

lemma update_jacobian_consistent:
  assumes "table_consistent s"
  shows "table_consistent (update_jacobian s jac)"
proof -
  have "y0 (predict (update_jacobian s jac)) = y0 (predict s)"
    by (rule predict_cong) simp_all
  then show ?thesis
    using assms by (simp add: table_consistent_def) (simp add: update_jacobian_def Let_def)
qed

lemma step_body_consistent:
  assumes solver: "\<forall>A b. length b = length (y s) \<longrightarrow> length (lu_solve A b) = length (y s)"
    and rhs: "\<forall>tt v. length v = length (y s) \<longrightarrow> length (fn tt v) = length (y s)"
    and ok: "table_consistent s"
    and body: "step_body lu_solve fn jac (s, acc, nuj, yv, d, n_iter) = (s', acc', nuj', yv', d', n_iter')"
  shows "table_consistent s' \<and> length (y s') = length (y s) \<and> length d' = length (y s)"
proof -
  obtain nc k1 y1 d1 where newton: "newton_iteration lu_solve fn s = (nc, k1, y1, d1)"
    by (cases "newton_iteration lu_solve fn s") auto
  have l0: "length (y0 s) = length (y s)" "length (psi s) = length (y s)"
    using ok predict_length[of s] by (simp_all add: table_consistent_def)
  have "length d1 = length (y s)"
    using newton_iteration_length[OF solver rhs l0 newton] by simp
  then show ?thesis
    using body ok update_step_size_consistent[OF ok] update_jacobian_consistent[OF ok]
    by (auto simp: step_body_def newton Let_def split: if_splits)
qed

lemma step_loop_consistent:
  "step_loop fuel lu_solve fn jac (s, False, nuj, yv, d, n_iter) = Inr (s1, acc1, nuj1, yv1, d1, n1)
   \<Longrightarrow> \<forall>A b. length b = length (y s) \<longrightarrow> length (lu_solve A b) = length (y s)
   \<Longrightarrow> \<forall>tt v. length v = length (y s) \<longrightarrow> length (fn tt v) = length (y s)
   \<Longrightarrow> table_consistent s
   \<Longrightarrow> table_consistent s1 \<and> length (y s1) = length (y s) \<and> length d1 = length (y s)"
proof (induction fuel arbitrary: s nuj yv d n_iter)
  case 0
  then show ?case by simp
next
  case (Suc fuel)
  obtain s' acc' nuj' yv' d' n' where
    b: "step_body lu_solve fn jac (s, False, nuj, yv, d, n_iter) = (s', acc', nuj', yv', d', n')"
    by (cases "step_body lu_solve fn jac (s, False, nuj, yv, d, n_iter)") auto
  have next_loop: "step_loop fuel lu_solve fn jac (s', acc', nuj', yv', d', n')
      = Inr (s1, acc1, nuj1, yv1, d1, n1)"
    using Suc.prems(1) b by simp
  have body: "table_consistent s' \<and> length (y s') = length (y s) \<and> length d' = length (y s)"
    using Suc.prems(2-4) b by (rule step_body_consistent)
  show ?case
  proof (cases acc')
    case True
    then have "s1 = s'" "d1 = d'"
      using next_loop by (cases fuel; simp)+
    with body show ?thesis by simp
  next
    case False
    with next_loop have loop: "step_loop fuel lu_solve fn jac (s', False, nuj', yv', d', n')
        = Inr (s1, acc1, nuj1, yv1, d1, n1)"
      by simp
    have "table_consistent s1 \<and> length (y s1) = length (y s') \<and> length d1 = length (y s')"
      using loop Suc.prems(2,3) body by (intro Suc.IH) simp_all
    with body show ?thesis by simp
  qed
qed


text \<open>
  An accepted step has an error norm of at most 1. At order 4 the row \<open>order + 2\<close> that
  the order change reads is clamped to row 5, which holds the correction \<open>d\<close> after the
  table update, so the factor of order 5 is \<open>(x / 6) ** (-1/6)\<close> where the factor of
  order 4 is \<open>(109 x / 960) ** (-1/5)\<close>, for the same scaled norm \<open>x\<close> of \<open>d\<close>. The
  first is never the larger when \<open>109 x / 960 \<le> 1\<close>, so the order is not raised.
\<close>

lemma rms_smul:
  "rms (vdiv (smul a v) w) = \<bar>a\<bar> * rms (vdiv v w)"
proof -
  have sq: "map (\<lambda>x. x\<^sup>2) (vdiv (smul a v) w) = map (\<lambda>x. a\<^sup>2 * x\<^sup>2) (vdiv v w)"
    by (simp add: vdiv_def smul_def zip_map1 power_mult_distrib power_divide split_def)
  have len: "length (vdiv (smul a v) w) = length (vdiv v w)"
    by (simp add: vdiv_def smul_def)
  have "mean (map (\<lambda>x. x\<^sup>2) (vdiv (smul a v) w)) = a\<^sup>2 * mean (map (\<lambda>x. x\<^sup>2) (vdiv v w))"
    by (simp add: mean_def sq sum_list_const_mult)
  then show ?thesis
    by (simp add: rms_def real_sqrt_mult)
qed

lemma step_body_accepted:
  assumes "step_body lu_solve fn jac (s, False, nuj, yv, d, n) = (s', True, nuj', yv', d', n')"
  shows "rms (vdiv (smul (jget (error_const s') (order s')) d') (error_scale s' yv')) \<le> 1"
proof -
  obtain nc k1 y1 d1 where newton: "newton_iteration lu_solve fn s = (nc, k1, y1, d1)"
    by (cases "newton_iteration lu_solve fn s") auto
  from assms show ?thesis
    by (auto simp: step_body_def newton Let_def split: if_splits)
qed

lemma step_loop_accepted:
  "step_loop fuel lu_solve fn jac (s, False, nuj, yv, d, n) = Inr (s1, acc1, nuj1, yv1, d1, n1)
   \<Longrightarrow> rms (vdiv (smul (jget (error_const s1) (order s1)) d1) (error_scale s1 yv1)) \<le> 1"
proof (induction fuel arbitrary: s nuj yv d n)
  case 0
  then show ?case by simp
next
  case (Suc fuel)
  obtain s' acc' nuj' yv' d' n' where
    b: "step_body lu_solve fn jac (s, False, nuj, yv, d, n) = (s', acc', nuj', yv', d', n')"
    by (cases "step_body lu_solve fn jac (s, False, nuj, yv, d, n)") auto
  have next_loop: "step_loop fuel lu_solve fn jac (s', acc', nuj', yv', d', n')
      = Inr (s1, acc1, nuj1, yv1, d1, n1)"
    using Suc.prems b by simp
  show ?case
  proof (cases acc')
    case True
    then have "s1 = s'" "yv1 = yv'" "d1 = d'"
      using next_loop by (cases fuel; simp)+
    moreover have "step_body lu_solve fn jac (s, False, nuj, yv, d, n) = (s', True, nuj', yv', d', n')"
      using b True by simp
    ultimately show ?thesis using step_body_accepted by blast
  next
    case False
    with next_loop have "step_loop fuel lu_solve fn jac (s', False, nuj', yv', d', n')
        = Inr (s1, acc1, nuj1, yv1, d1, n1)"
      by simp
    then show ?thesis by (rule Suc.IH)
  qed
qed

lemma argmax3_not_last:
  "a \<noteq> NaN \<Longrightarrow> b \<noteq> NaN \<Longrightarrow> c' \<noteq> NaN \<Longrightarrow> \<not> fl_lt b c' \<Longrightarrow> np_argmax [a, b, c'] \<le> 1"
  by (cases a; cases b; cases c') (auto simp: np_argmax_def)

lemma higher_order_factor_smaller:
  fixes x :: real
  assumes "0 < x" "109 / 960 * x \<le> 1"
  shows "(x / 6) powr (- 1 / 6) \<le> (109 / 960 * x) powr (- 1 / 5)"
proof -
  have "(x / 6) powr (- 1 / 6) \<le> (109 / 960 * x) powr (- 1 / 6)"
    using assms by (intro powr_mono2') auto
  also have "\<dots> \<le> (109 / 960 * x) powr (- 1 / 5)"
    using assms by (intro powr_mono') auto
  finally show ?thesis .
qed


lemma index_add_other:
  "0 \<le> i \<Longrightarrow> i \<noteq> int j \<Longrightarrow> index_add Dm i v ! j = Dm ! j"
  by (auto simp: index_add_def norm_index_def)

lemma diff_loop_above:
  "i < int j \<Longrightarrow> snd (diff_loop i Dm) ! j = Dm ! j"
proof (induction i Dm rule: diff_loop.induct)
  case (1 i Dm)
  show ?case
  proof (cases "0 \<le> i")
    case True
    have "snd (diff_loop (i - 1) (index_add Dm i (jget Dm (i + 1)))) ! j
        = index_add Dm i (jget Dm (i + 1)) ! j"
      using 1 True by simp
    also have "\<dots> = Dm ! j"
      using 1(2) True by (intro index_add_other) auto
    finally show ?thesis
      using True by (subst diff_loop.simps) simp
  next
    case False
    then show ?thesis by (subst diff_loop.simps) simp
  qed
qed

lemma update_difference_last_row:
  assumes "order s = 4" "length (D s) = 6"
  shows "jget (D (update_difference_for_next_step s d True)) 6 = d"
proof -
  let ?D2 = "index_update (index_update (D s) 6 (vsub d (jget (D s) 5))) 5 d"
  have D2: "?D2 ! 5 = d" "length ?D2 = 6"
    using assms(2) by (simp_all add: index_update_def in_bounds_def norm_index_def)
  have "snd (diff_loop 4 ?D2) ! 5 = ?D2 ! 5"
    by (rule diff_loop_above) simp
  moreover have "length (snd (diff_loop 4 ?D2)) = 6"
    using D2(2) by (simp add: diff_loop_length)
  moreover have "D (update_difference_for_next_step s d True) = snd (diff_loop 4 ?D2)"
    by (simp add: update_difference_for_next_step_def Let_def assms(1) split: prod.splits)
  moreover have "jget X 6 = X ! 5" if "length X = 6" for X :: mat
    using that by (simp add: jget_def norm_index_def)
  ultimately show ?thesis
    using D2(1) by simp
qed

lemma fl_powr_not_nan: "0 \<le> e \<Longrightarrow> p < 0 \<Longrightarrow> fl_powr (Fin e) p \<noteq> NaN"
  by simp

lemma order_four_not_raised:
  assumes ord: "order s = 4" and rows: "length (D s) = 6"
    and ec: "error_const s = error_const_table"
    and acc: "rms (vdiv (smul (jget (error_const s) (order s)) d) (error_scale s yv)) \<le> 1"
  shows "np_argmax (candidate_factors s d yv) \<le> 1"
proof -
  define x where "x = rms (vdiv d (error_scale s yv))"
  define em where "em = rms (vdiv (smul (jget (error_const (update_difference_for_next_step s d True)) 3)
      (jget (D (update_difference_for_next_step s d True)) 4)) (error_scale s yv))"
  have x0: "0 \<le> x" and em0: "0 \<le> em"
    by (simp_all add: x_def em_def rms_nonneg)
  have ec1: "error_const (update_difference_for_next_step s d True) = error_const_table"
    by (subst update_difference_only_table) (simp add: ec)
  have c4: "jget error_const_table 4 = 109 / 960" and c5: "jget error_const_table 5 = 1 / 6"
    by (simp_all add: error_const_table_eval jget_def norm_index_def)
  have en: "rms (vdiv (smul (jget (error_const s) (order s)) d) (error_scale s yv)) = 109 / 960 * x"
    by (simp add: ec ord c4 rms_smul x_def)
  have fs: "candidate_factors s d yv
      = [fl_powr (Fin em) (- 1 / 4), fl_powr (Fin (109 / 960 * x)) (- 1 / 5),
         fl_powr (Fin (x / 6)) (- 1 / 6)]"
    unfolding candidate_factors_def Let_def
    using ord
    by (simp add: MAX_ORDER_def ec1 c5 c4 ec rms_smul update_difference_last_row[OF ord rows]
        x_def em_def del: fl_powr.simps)
  have small: "109 / 960 * x \<le> 1"
    using acc en by simp
  have "\<not> fl_lt (fl_powr (Fin (109 / 960 * x)) (- 1 / 5)) (fl_powr (Fin (x / 6)) (- 1 / 6))"
  proof (cases "x = 0")
    case True
    then show ?thesis by simp
  next
    case False
    with x0 have "0 < x" by simp
    from higher_order_factor_smaller[OF this small] \<open>0 < x\<close> show ?thesis
      by simp
  qed
  then show ?thesis
    unfolding fs using x0 em0
    by (intro argmax3_not_last fl_powr_not_nan) auto
qed


text \<open>
  One step: the state it returns satisfies the same conditions, and its interpolant at the
  new time is the new solution.
\<close>

lemma update_difference_const_fields:
  "U (update_difference_for_next_step s d b) = U s"
  "error_const (update_difference_for_next_step s d b) = error_const s"
  by (simp_all add: update_difference_for_next_step_def Let_def predict_def update_psi_def
      split: prod.splits)

lemma update_step_size_const_fields:
  "U (update_step_size s factor b) = U s"
  "error_const (update_step_size s factor b) = error_const s"
  by (simp_all add: update_step_size_def Let_def predict_def update_psi_def)

lemma update_psi_length: "length (psi (update_psi s)) = length (y s)"
  by (simp add: update_psi_def Let_def dot_mv_def mT_def)

lemma predict_twice: "y0 (predict (predict s)) = y0 (predict s)"
  by (rule predict_cong) simp_all

lemma bdf_step_consistent:
  assumes solver: "\<forall>A b. length b = length (y s) \<longrightarrow> length (lu_solve A b) = length (y s)"
    and rhs: "\<forall>tt v. length v = length (y s) \<longrightarrow> length (fn tt v) = length (y s)"
    and ok: "table_consistent s"
    and step: "bdf_step fuel lu_solve fn jac s = Inr s'"
  shows "table_consistent s' \<and> length (y s') = length (y s)
         \<and> bdf_interpolate s' (t s') = y s'"
proof -
  from step obtain s1 acc nuj yv d n_iter where
    loop: "step_loop fuel lu_solve fn jac
             (s, False, True, zeros (length (y s)), zeros (length (y s)), - 1)
           = Inr (s1, acc, nuj, yv, d, n_iter)"
    by (auto simp: bdf_step_def split: sum.splits)
  define n where "n = length (y s)"
  have ok1: "table_consistent s1" and ly1: "length (y s1) = n" and ld: "length d = n"
    using step_loop_consistent[OF loop solver rhs ok] by (simp_all add: n_def)
  have shape: "length (D s1) = 6" "\<forall>row\<in>set (D s1). length row = n"
    and ord: "1 \<le> order s1" "order s1 \<le> 4"
    and consistent: "y0 s1 = y0 (predict s1)"
    and rescale: "U s1 ! 0 = compute_R 0 1"
    and ec: "error_const s1 = error_const_table"
    using ok1 ly1 by (auto simp: table_consistent_def MAX_ORDER_def)
  have sum: "yv = vadd (y0 s1) d"
    using loop by (rule step_loop_sum)
  have lyv: "length yv = n"
    by (simp add: sum vadd_length consistent predict_length ld ly1)
  have accepted: "rms (vdiv (smul (jget (error_const s1) (order s1)) d) (error_scale s1 yv)) \<le> 1"
    using loop by (rule step_loop_accepted)
  define s3 where "s3 = s1\<lparr>y := yv, t := t s1 + h s1, n_equal_steps := n_equal_steps s1 + 1\<rparr>"
  have f3: "D s3 = D s1" "order s3 = order s1" "y s3 = yv" "U s3 = U s1"
    "error_const s3 = error_const s1" "error_scale s3 yv = error_scale s1 yv"
    by (simp_all add: s3_def error_scale_def)
  have shape3: "length (D s3) = 6" "\<forall>row\<in>set (D s3). length row = length (y s3)"
      "length d = length (y s3)"
    using shape lyv ld by (simp_all add: f3)
  have "y0 (predict s3) = y0 (predict s1)"
    by (rule predict_cong) (simp_all add: f3 lyv ly1)
  then have row0: "jget (D (update_difference_for_next_step s3 d b)) 0 = yv" for b
    using update_difference_row_zero_vec[OF shape3, of b] ord
    by (simp add: f3 sum consistent)
  have rows: "\<forall>row\<in>set (D (update_difference_for_next_step s3 d b)). length row = n" for b
    using update_difference_shape[of s3 n d b] shape3 lyv by (simp add: f3)
  have six: "length (D (update_difference_for_next_step s3 d b)) = 6" for b
    by (simp add: update_difference_rows shape3)
  have res: "s' = update_difference_for_next_step s3 d False \<or> order_change s3 d yv n_iter = Inr s'"
    using step unfolding bdf_step_def loop
    by (auto simp: Let_def s3_def split: if_splits)
  then show ?thesis
  proof
    assume s': "s' = update_difference_for_next_step s3 d False"
    have ne: "D s' \<noteq> []" using six[of False] by (auto simp: s')
    have "bdf_interpolate s' (t s') = jget (D s') 0"
      by (rule interp_at_step_time[OF ne, where n = n]) (simp add: s' rows)
    then have interp: "bdf_interpolate s' (t s') = y s'"
      by (simp add: s' row0 f3)
    have form: "s' = predict (update_psi (s3\<lparr>D := D s'\<rparr>))"
      unfolding s' by (simp add: update_difference_for_next_step_def Let_def split: prod.splits)
    have "y0 s' = y0 (predict s')"
      by (subst (1 2) form) (simp only: predict_twice)
    moreover have "length (psi s') = length (y s')"
      by (subst (1 2) form) (simp add: update_psi_length)
    ultimately have "table_consistent s'"
      using six[of False] rows[of False] ord rescale ec lyv
      by (simp add: table_consistent_def s' update_difference_const_fields f3 MAX_ORDER_def)
    with interp lyv show ?thesis by (simp add: s' f3 n_def)
  next
    assume oc: "order_change s3 d yv n_iter = Inr s'"
    then obtain factor k where
      s': "s' = update_step_size ((update_difference_for_next_step s3 d True)\<lparr>order := k\<rparr>)
                  factor False"
      by (rule order_change_result)
    let ?sd = "(update_difference_for_next_step s3 d True)\<lparr>order := k\<rparr>"
    have Usd: "U ?sd ! 0 = compute_R 0 1"
      by (subst update_difference_only_table) (simp add: f3 rescale)
    have Dsd: "length (D ?sd) = 6" "\<forall>row\<in>set (D ?sd). length row = n"
      using six[of True] rows[of True] by simp_all
    have keep: "jget (D s') 0 = jget (D ?sd) 0"
      unfolding s' by (rule update_step_size_row_zero[OF Usd Dsd])
    have ysd: "y s' = yv"
      unfolding s' by (subst update_difference_only_table) (simp add: f3)
    obtain r rs where cons: "D ?sd = r # rs" using Dsd(1) by (cases "D ?sd") auto
    have rows': "\<forall>row\<in>set (D s'). length row = n"
      using Dsd(2) cons
      by (auto simp: s' update_step_size_def Let_def dot_def)
    moreover have ne: "D s' \<noteq> []"
      using update_step_size_rows[of ?sd factor False] by (auto simp: s' MAX_ORDER_def)
    ultimately have "bdf_interpolate s' (t s') = jget (D s') 0"
      by (intro interp_at_step_time[where n = n])
    then have interp: "bdf_interpolate s' (t s') = y s'"
      using keep row0[of True] ysd by simp
    have lo: "1 \<le> order s'"
      using order_change_in_range[of s3 d yv n_iter s'] ord oc by (simp add: f3 MAX_ORDER_def)
    have new: "order s' = order s3 + int (np_argmax (candidate_factors s3 d yv)) - 1"
      using oc by (rule order_change_order)
    have hi: "order s' \<le> 4"
    proof (cases "order s1 = 4")
      case True
      have "np_argmax (candidate_factors s3 d yv) \<le> 1"
        using True shape3(1) ec accepted
        by (intro order_four_not_raised) (simp_all add: f3)
      with new True show ?thesis by (simp add: f3)
    next
      case False
      have "np_argmax (candidate_factors s3 d yv) \<le> 2"
        using candidate_factors_shape[of s3 d yv] argmax3_le by auto
      with new False ord show ?thesis by (simp add: f3)
    qed
    have pred: "y0 s' = y0 (predict s')"
      unfolding s' by (simp add: update_step_size_def Let_def predict_twice)
    have lpsi: "length (psi s') = n"
      unfolding s' by (subst update_difference_only_table)
        (simp add: update_step_size_def Let_def predict_def update_psi_length f3 lyv)
    have "U s' = U s1" "error_const s' = error_const s1"
      unfolding s' by (subst update_difference_only_table, simp add: update_step_size_const_fields f3)+
    then have "table_consistent s'"
      using rows' lo hi rescale ec pred lpsi ysd lyv update_step_size_rows[of ?sd factor False]
      by (simp add: table_consistent_def s'[symmetric] MAX_ORDER_def)
    with interp ysd lyv show ?thesis by (simp add: n_def)
  qed
qed


text \<open>
  Initialisation establishes the conditions, so they hold after every sequence of steps.
\<close>

lemma bdf_init_consistent:
  assumes rhs: "length (fn t0 y0') = length y0'"
    and init: "bdf_init fn jac t0 y0' h0 rtol' atol' = Inr s"
  shows "table_consistent s \<and> length (y s) = length y0'"
proof -
  obtain h1 where h1: "select_initial_step atol' rtol' fn t0 y0' (fn t0 y0') h0 = Fin h1"
    using init by (auto simp: bdf_init_def Let_def split: fl.splits)
  define D2 where "D2 = index_update (index_update (replicate (nat (MAX_ORDER + 1)) (zeros (length y0'))) 0 y0')
      1 (smul h0 (fn t0 y0'))"
  have len: "int (length D2) = MAX_ORDER + 1"
    by (simp add: D2_def MAX_ORDER_def)
  have rows: "\<forall>row\<in>set D2. length row = length y0'"
    using rhs
    by (auto simp: D2_def index_update_def zeros_def smul_def dest!: set_update_subset_insert[THEN subsetD])
  obtain s0 where s: "s = update_psi (predict s0)"
    and s0: "D s0 = D2" "y s0 = y0'" "order s0 = 1" "error_const s0 = error_const_table"
      "U s0 = map (\<lambda>k. compute_R (int k) 1) [0..<nat MAX_ORDER]"
    using init unfolding bdf_init_def Let_def h1 D2_def by force
  have fields: "D s = D2" "y s = y0'" "order s = 1" "error_const s = error_const_table"
    "U s = map (\<lambda>k. compute_R (int k) 1) [0..<nat MAX_ORDER]"
    by (simp_all add: s s0 update_psi_def predict_def Let_def)
  have "y0 s = y0 (predict s)"
    unfolding s by (simp add: update_psi_def Let_def predict_def)
  moreover have "length (psi s) = length (y s)"
    unfolding s by (simp add: update_psi_length)
  moreover have "U s ! 0 = compute_R 0 1"
    by (simp add: fields MAX_ORDER_def upt_rec[of 0])
  ultimately show ?thesis
    using len rows by (simp add: table_consistent_def fields MAX_ORDER_def)
qed

lemma bdf_steps_consistent:
  "bdf_steps fuels lu_solve fn jac s = Inr s'
   \<Longrightarrow> \<forall>A b. length b = length (y s) \<longrightarrow> length (lu_solve A b) = length (y s)
   \<Longrightarrow> \<forall>tt v. length v = length (y s) \<longrightarrow> length (fn tt v) = length (y s)
   \<Longrightarrow> table_consistent s
   \<Longrightarrow> table_consistent s' \<and> length (y s') = length (y s)
       \<and> (fuels \<noteq> [] \<longrightarrow> bdf_interpolate s' (t s') = y s')"
proof (induction fuels arbitrary: s)
  case Nil
  then show ?case by simp
next
  case (Cons fuel fuels)
  from Cons.prems(1) obtain s1 where
    first: "bdf_step fuel lu_solve fn jac s = Inr s1"
    and rest: "bdf_steps fuels lu_solve fn jac s1 = Inr s'"
    by (auto split: sum.splits)
  have one: "table_consistent s1 \<and> length (y s1) = length (y s)
         \<and> bdf_interpolate s1 (t s1) = y s1"
    using Cons.prems(2-4) first by (rule bdf_step_consistent)
  have more: "table_consistent s' \<and> length (y s') = length (y s1)
       \<and> (fuels \<noteq> [] \<longrightarrow> bdf_interpolate s' (t s') = y s')"
    using rest Cons.prems(2,3) one by (intro Cons.IH) simp_all
  show ?case
  proof (cases fuels)
    case Nil
    with rest have "s' = s1" by simp
    with one show ?thesis by simp
  next
    case (Cons a list)
    with more one show ?thesis by simp
  qed
qed

lemma order_stays_below_max:
  assumes "\<forall>A b. length b = length y0' \<longrightarrow> length (lu_solve A b) = length y0'"
    and "\<forall>tt v. length v = length y0' \<longrightarrow> length (fn tt v) = length y0'"
    and "bdf_init fn jac t0 y0' h0 rtol' atol' = Inr s0"
    and "bdf_steps fuels lu_solve fn jac s0 = Inr s"
  shows "1 \<le> order s \<and> order s < MAX_ORDER"
proof -
  have "length (fn t0 y0') = length y0'"
    using assms(2) by simp
  then have init: "table_consistent s0" "length (y s0) = length y0'"
    using bdf_init_consistent assms(3) by blast+
  have "table_consistent s \<and> length (y s) = length (y s0)
       \<and> (fuels \<noteq> [] \<longrightarrow> bdf_interpolate s (t s) = y s)"
    using assms(4) assms(1,2) init by (intro bdf_steps_consistent) simp_all
  then show ?thesis
    by (simp add: table_consistent_def)
qed
subsection \<open>Interpolation at the time of the accepted step\<close>


subsection \<open>The entry point checks nothing\<close>


lemma bdf_init_stop: "bdf_init fn jac t0 y0' h0 rtol' atol' = Inl e \<Longrightarrow> e = NonFinite"
  by (auto simp: bdf_init_def Let_def split: fl.splits)





end
